theory Spec2Isabelle
  imports Main "HOL-Library.Word"
begin

section \<open>Cells and grids\<close>

text \<open>
  The board is a Go value of type \<^verbatim>\<open>[][]byte\<close>: a list of rows, each a list of bytes.
  Reading or writing \<^verbatim>\<open>grid[r][c]\<close> outside the slice bounds is a run-time panic in
  Go; in the model every function that indexes returns an option, and \<open>None\<close> stands
  for "the Go function does not return normally". The table \<^verbatim>\<open>Winning\<close> of a game is a
  \<^verbatim>\<open>[][]bool\<close> read and written in the same way, so \<open>cellAt\<close> and \<open>setCell\<close> are
  stated for rows of any element type.
\<close>

type_synonym byte = "8 word"
type_synonym grid = "byte list list"

definition cellEmpty :: byte where "cellEmpty = 0"
definition cellR :: byte where "cellR = 82"
definition cellY :: byte where "cellY = 89"
definition cellBlk :: byte where "cellBlk = 88"

definition index :: "'a list \<Rightarrow> int \<Rightarrow> 'a option" where
  "index xs i = (if 0 \<le> i \<and> i < int (length xs) then Some (xs ! nat i) else None)"

definition cellAt :: "'a list list \<Rightarrow> int \<Rightarrow> int \<Rightarrow> 'a option" where
  "cellAt g r c = (case index g r of None \<Rightarrow> None | Some row \<Rightarrow> index row c)"

definition setCell :: "'a list list \<Rightarrow> int \<Rightarrow> int \<Rightarrow> 'a \<Rightarrow> 'a list list option" where
  "setCell g r c v =
     (case index g r of
        None \<Rightarrow> None
      | Some row \<Rightarrow>
          if 0 \<le> c \<and> c < int (length row) then Some (g[nat r := row[nat c := v]])
          else None)"

text \<open>A grid as \<^verbatim>\<open>newGame\<close> allocates it: every row has the length of the first.\<close>

definition rectangular :: "'a list list \<Rightarrow> bool" where
  "rectangular g = list_all (\<lambda>row. length row = length (hd g)) g"

section \<open>Difficulty table\<close>

definition configByDifficulty :: "string \<Rightarrow> int \<times> int \<times> int" where
  "configByDifficulty d =
     (if d = ''hard'' then (7, 8, 7)
      else if d = ''normal'' then (6, 9, 5)
      else (6, 7, 3))"

section \<open>Landing cell of a column\<close>

text \<open>
  \<^verbatim>\<open>dropRow\<close> has two loops, one from the last row down to row 0 and one from row 0
  up; \<open>scanRows\<close> is the loop body run over the row indices in the order of the loop,
  returning at the first empty cell and \<open>-1\<close> when the indices are used up.
\<close>

fun scanRows :: "grid \<Rightarrow> int \<Rightarrow> int list \<Rightarrow> int option" where
  "scanRows g col [] = Some (- 1)"
| "scanRows g col (r # rs) =
     (case cellAt g r col of
        None \<Rightarrow> None
      | Some v \<Rightarrow> if v = cellEmpty then Some r else scanRows g col rs)"

definition dropRow :: "grid \<Rightarrow> int \<Rightarrow> bool \<Rightarrow> int option" where
  "dropRow g col gravityUp =
     (let h = int (length g) in
      if h = 0 \<or> col < 0 \<or> col \<ge> int (length (g ! 0)) then Some (- 1)
      else if \<not> gravityUp then scanRows g col (rev [0..h - 1])
      else scanRows g col [0..h - 1])"

section \<open>Winning line through a cell\<close>

definition inGrid :: "int \<Rightarrow> int \<Rightarrow> int \<Rightarrow> int \<Rightarrow> bool" where
  "inGrid h w rr cc = (rr \<ge> 0 \<and> rr < h \<and> cc \<ge> 0 \<and> cc < w)"

definition dirs :: "(int \<times> int) list" where
  "dirs = [(0, 1), (1, 0), (1, 1), (1, - 1)]"

text \<open>
  The two inner loops of \<^verbatim>\<open>winningLine\<close>. Each walks from \<open>(rr, cc)\<close> in steps of
  \<open>d\<close> (forward) or \<open>-d\<close> (backward) while the cell is inside the grid and holds \<open>p\<close>;
  the forward loop appends to \<open>line\<close>, the backward loop prepends. A loop that does
  not end has the value \<open>None\<close>, like a panic.
\<close>

partial_function (option) extendFwd ::
  "grid \<Rightarrow> int \<Rightarrow> int \<Rightarrow> byte \<Rightarrow> int \<times> int \<Rightarrow> int \<Rightarrow> int \<Rightarrow> (int \<times> int) list
    \<Rightarrow> (int \<times> int) list option" where
  "extendFwd g h w p d rr cc line =
     (if inGrid h w rr cc then
        (case cellAt g rr cc of
           None \<Rightarrow> None
         | Some v \<Rightarrow>
             if v = p then extendFwd g h w p d (rr + fst d) (cc + snd d) (line @ [(rr, cc)])
             else Some line)
      else Some line)"

partial_function (option) extendBwd ::
  "grid \<Rightarrow> int \<Rightarrow> int \<Rightarrow> byte \<Rightarrow> int \<times> int \<Rightarrow> int \<Rightarrow> int \<Rightarrow> (int \<times> int) list
    \<Rightarrow> (int \<times> int) list option" where
  "extendBwd g h w p d rr cc line =
     (if inGrid h w rr cc then
        (case cellAt g rr cc of
           None \<Rightarrow> None
         | Some v \<Rightarrow>
             if v = p then extendBwd g h w p d (rr - fst d) (cc - snd d) ((rr, cc) # line)
             else Some line)
      else Some line)"

declare extendFwd.simps [code] extendBwd.simps [code]

definition lineThrough ::
  "grid \<Rightarrow> int \<Rightarrow> int \<Rightarrow> int \<Rightarrow> int \<Rightarrow> byte \<Rightarrow> int \<times> int \<Rightarrow> (int \<times> int) list option" where
  "lineThrough g h w r c p d =
     (case extendFwd g h w p d (r + fst d) (c + snd d) [(r, c)] of
        None \<Rightarrow> None
      | Some line \<Rightarrow> extendBwd g h w p d (r - fst d) (c - snd d) line)"

text \<open>The loop over the directions; the result \<^verbatim>\<open>nil\<close> is the empty list.\<close>

fun firstLine ::
  "grid \<Rightarrow> int \<Rightarrow> int \<Rightarrow> int \<Rightarrow> int \<Rightarrow> byte \<Rightarrow> (int \<times> int) list \<Rightarrow> (int \<times> int) list option" where
  "firstLine g h w r c p [] = Some []"
| "firstLine g h w r c p (d # ds) =
     (case lineThrough g h w r c p d of
        None \<Rightarrow> None
      | Some line \<Rightarrow> if length line \<ge> 4 then Some line else firstLine g h w r c p ds)"

definition winningLine :: "grid \<Rightarrow> int \<Rightarrow> int \<Rightarrow> byte \<Rightarrow> (int \<times> int) list option" where
  "winningLine g r c p =
     (case index g 0 of
        None \<Rightarrow> None
      | Some row0 \<Rightarrow> firstLine g (int (length g)) (int (length row0)) r c p dirs)"

section \<open>Draw test\<close>

fun noEmpty :: "byte list \<Rightarrow> bool" where
  "noEmpty [] = True"
| "noEmpty (v # vs) = (if v = cellEmpty then False else noEmpty vs)"

definition isDraw :: "grid \<Rightarrow> bool option" where
  "isDraw g = (case index g 0 of None \<Rightarrow> None | Some row0 \<Rightarrow> Some (noEmpty row0))"

section \<open>Game state\<close>

text \<open>
  The struct \<^verbatim>\<open>Game\<close>; \<^verbatim>\<open>Scores.R\<close> and \<^verbatim>\<open>Scores.Y\<close> are the fields \<open>ScoresR\<close> and
  \<open>ScoresY\<close>, and a \<^verbatim>\<open>time.Time\<close> is an integer. The counters \<open>Turns\<close> and the scores
  are Go \<^verbatim>\<open>int\<close>s that start at 0 and grow by one per placed piece or won game, far
  from the 64-bit range, so they are unbounded integers here.
\<close>

record Game =
  Rows :: int
  Cols :: int
  Grid :: grid
  Winning :: "bool list list"
  Current :: byte
  Player1 :: string
  Player2 :: string
  ScoresR :: int
  ScoresY :: int
  Message :: string
  GameOver :: bool
  Turns :: int
  GravityUp :: bool
  Mode :: string
  CreatedAt :: int
  Difficulty :: string
  LobbyCode :: string
  ThisIsRed :: bool
  LastPlayed :: byte

text \<open>The draw message, as the bytes of the UTF-8 string literal in the source.\<close>

definition drawMessage :: string where
  "drawMessage = map char_of
     [240, 159, 164, 157, 32, 195, 137, 103, 97, 108, 105, 116, 195, 169, 32, 33 :: nat]"

fun markWinning :: "bool list list \<Rightarrow> (int \<times> int) list \<Rightarrow> bool list list option" where
  "markWinning ws [] = Some ws"
| "markWinning ws (rc # rcs) =
     (case setCell ws (fst rc) (snd rc) True of
        None \<Rightarrow> None
      | Some ws' \<Rightarrow> markWinning ws' rcs)"

definition checkResult :: "Game \<Rightarrow> int \<Rightarrow> int \<Rightarrow> byte \<Rightarrow> (bool \<times> Game) option" where
  "checkResult g r c p =
     (case winningLine (Grid g) r c p of
        None \<Rightarrow> None
      | Some line \<Rightarrow>
          if length line \<ge> 4 then
            (case markWinning (Winning g) (take 4 line) of
               None \<Rightarrow> None
             | Some ws \<Rightarrow>
                 Some (True,
                   (if p = cellR then g\<lparr>Winning := ws, GameOver := True, ScoresR := ScoresR g + 1\<rparr>
                    else g\<lparr>Winning := ws, GameOver := True, ScoresY := ScoresY g + 1\<rparr>)
                   \<lparr>Message := []\<rparr>))
          else
            (case isDraw (Grid g) of
               None \<Rightarrow> None
             | Some True \<Rightarrow> Some (True, g\<lparr>GameOver := True, Message := drawMessage\<rparr>)
             | Some False \<Rightarrow> Some (False, g)))"

section \<open>The computer's move\<close>

text \<open>
  \<^verbatim>\<open>countK\<close> inside \<^verbatim>\<open>evalBoard\<close>: for every cell and every direction, the window of
  \<open>k\<close> cells starting there. \<open>window\<close> is the innermost loop (it breaks with
  \<open>clear = false\<close> at a cell outside the grid or at a block), the three loops around it
  thread the running count \<open>tot\<close> (\<^verbatim>\<open>total\<close>).
\<close>

fun window ::
  "grid \<Rightarrow> int \<Rightarrow> int \<Rightarrow> byte \<Rightarrow> int \<times> int \<Rightarrow> nat \<Rightarrow> int \<Rightarrow> int \<Rightarrow> int \<Rightarrow> (bool \<times> int) option" where
  "window g h w p d 0 rr cc cnt = Some (True, cnt)"
| "window g h w p d (Suc n) rr cc cnt =
     (if \<not> inGrid h w rr cc then Some (False, cnt)
      else
        (case cellAt g rr cc of
           None \<Rightarrow> None
         | Some v \<Rightarrow>
             if v = cellBlk then Some (False, cnt)
             else window g h w p d n (rr + fst d) (cc + snd d) (if v = p then cnt + 1 else cnt)))"

fun countDirs ::
  "grid \<Rightarrow> int \<Rightarrow> int \<Rightarrow> byte \<Rightarrow> int \<Rightarrow> int \<Rightarrow> int \<Rightarrow> (int \<times> int) list \<Rightarrow> int \<Rightarrow> int option" where
  "countDirs g h w p k r c [] tot = Some tot"
| "countDirs g h w p k r c (d # ds) tot =
     (case window g h w p d (nat k) r c 0 of
        None \<Rightarrow> None
      | Some (clear, cnt) \<Rightarrow>
          countDirs g h w p k r c ds (if clear \<and> cnt = k then tot + 1 else tot))"

fun countCols ::
  "grid \<Rightarrow> int \<Rightarrow> int \<Rightarrow> byte \<Rightarrow> int \<Rightarrow> int \<Rightarrow> int list \<Rightarrow> int \<Rightarrow> int option" where
  "countCols g h w p k r [] tot = Some tot"
| "countCols g h w p k r (c # cs) tot =
     (case countDirs g h w p k r c dirs tot of
        None \<Rightarrow> None
      | Some tot' \<Rightarrow> countCols g h w p k r cs tot')"

fun countRows ::
  "grid \<Rightarrow> int \<Rightarrow> int \<Rightarrow> byte \<Rightarrow> int \<Rightarrow> int list \<Rightarrow> int \<Rightarrow> int option" where
  "countRows g h w p k [] tot = Some tot"
| "countRows g h w p k (r # rs) tot =
     (case countCols g h w p k r [0..w - 1] tot of
        None \<Rightarrow> None
      | Some tot' \<Rightarrow> countRows g h w p k rs tot')"

definition countK :: "grid \<Rightarrow> byte \<Rightarrow> int \<Rightarrow> int option" where
  "countK g p k =
     (case index g 0 of
        None \<Rightarrow> None
      | Some row0 \<Rightarrow>
          (let h = int (length g); w = int (length row0)
           in countRows g h w p k [0..h - 1] 0))"

definition evalBoard :: "Game \<Rightarrow> byte \<Rightarrow> int option" where
  "evalBoard g me =
     (let op = (if me = cellR then cellY else cellR) in
      (case countK (Grid g) me 3 of
         None \<Rightarrow> None
       | Some m3 \<Rightarrow>
           (case countK (Grid g) me 2 of
              None \<Rightarrow> None
            | Some m2 \<Rightarrow>
                (case countK (Grid g) op 3 of
                   None \<Rightarrow> None
                 | Some o3 \<Rightarrow>
                     (case countK (Grid g) op 2 of
                        None \<Rightarrow> None
                      | Some o2 \<Rightarrow> Some (50 * m3 + 10 * m2 - 50 * o3 - 10 * o2))))))"

text \<open>
  \<^verbatim>\<open>chooseAIMove\<close> writes its trial pieces into \<^verbatim>\<open>g.Grid\<close> and takes them out
  again, so the game is threaded through both loops and returned with the column.
  \<open>needBlockLoop\<close> is the inner loop over \<open>cc\<close>, which stops as soon as
  \<open>needBlock\<close> is set; \<open>chooseLoop\<close> is the outer loop over \<open>c\<close>, carrying
  \<open>bestCol\<close> and \<open>bestScore\<close>. Inside the outer loop \<open>c < g.Cols\<close> holds, so
  \<open>g.Cols\<close> is positive and Go's truncating \<^verbatim>\<open>g.Cols / 2\<close> is \<open>div\<close>.
\<close>

fun needBlockLoop :: "Game \<Rightarrow> int list \<Rightarrow> (bool \<times> Game) option" where
  "needBlockLoop g [] = Some (False, g)"
| "needBlockLoop g (cc # ccs) =
     (case dropRow (Grid g) cc (GravityUp g) of
        None \<Rightarrow> None
      | Some rr \<Rightarrow>
          if rr = - 1 then needBlockLoop g ccs
          else
            (case cellAt (Grid g) rr cc of
               None \<Rightarrow> None
             | Some v \<Rightarrow>
                 if v \<noteq> cellEmpty then needBlockLoop g ccs
                 else
                   (case setCell (Grid g) rr cc cellR of
                      None \<Rightarrow> None
                    | Some g1 \<Rightarrow>
                        (case winningLine g1 rr cc cellR of
                           None \<Rightarrow> None
                         | Some line \<Rightarrow>
                             (case setCell g1 rr cc cellEmpty of
                                None \<Rightarrow> None
                              | Some g2 \<Rightarrow>
                                  if length line \<ge> 4 then Some (True, g\<lparr>Grid := g2\<rparr>)
                                  else needBlockLoop (g\<lparr>Grid := g2\<rparr>) ccs)))))"

fun chooseLoop :: "Game \<Rightarrow> int \<Rightarrow> int \<Rightarrow> int list \<Rightarrow> (int \<times> Game) option" where
  "chooseLoop g bestCol bestScore [] = Some (bestCol, g)"
| "chooseLoop g bestCol bestScore (c # cs) =
     (case dropRow (Grid g) c (GravityUp g) of
        None \<Rightarrow> None
      | Some r \<Rightarrow>
          if r = - 1 then chooseLoop g bestCol bestScore cs
          else
            (case cellAt (Grid g) r c of
               None \<Rightarrow> None
             | Some v \<Rightarrow>
                 if v \<noteq> cellEmpty then chooseLoop g bestCol bestScore cs
                 else
                   (case setCell (Grid g) r c cellY of
                      None \<Rightarrow> None
                    | Some g1 \<Rightarrow>
                        (case winningLine g1 r c cellY of
                           None \<Rightarrow> None
                         | Some line \<Rightarrow>
                             if length line \<ge> 4 then
                               (case setCell g1 r c cellEmpty of
                                  None \<Rightarrow> None
                                | Some g2 \<Rightarrow> Some (c, g\<lparr>Grid := g2\<rparr>))
                             else
                               (case needBlockLoop (g\<lparr>Grid := g1\<rparr>) [0..Cols g - 1] of
                                  None \<Rightarrow> None
                                | Some (needBlock, g3) \<Rightarrow>
                                    (case evalBoard g3 cellY of
                                       None \<Rightarrow> None
                                     | Some e \<Rightarrow>
                                         (let score = (if needBlock then e + 5000 else e);
                                              center = Cols g3 div 2;
                                              score = score - abs (c - center)
                                          in case setCell (Grid g3) r c cellEmpty of
                                               None \<Rightarrow> None
                                             | Some g4 \<Rightarrow>
                                                 if score > bestScore
                                                 then chooseLoop (g3\<lparr>Grid := g4\<rparr>) c score cs
                                                 else chooseLoop (g3\<lparr>Grid := g4\<rparr>) bestCol bestScore cs)))))))"

definition chooseAIMove :: "Game \<Rightarrow> (int \<times> Game) option" where
  "chooseAIMove g = chooseLoop g (- 1) (- 1000000) [0..Cols g - 1]"

section \<open>New games\<close>

text \<open>
  \<^verbatim>\<open>placeBlocks\<close> draws a row and a column with \<^verbatim>\<open>mrand.Intn\<close> at every try. The
  random source is a parameter: \<open>rnd i\<close> is the pair of raw numbers of the \<open>i\<close>-th try,
  reduced to the range of \<^verbatim>\<open>Intn\<close> by \<open>mod\<close>, so every outcome of the generator is
  some \<open>rnd\<close>. \<^verbatim>\<open>Intn\<close> panics on a bound that is not positive. The loop runs while
  \<open>n > 0\<close> and \<open>tries > 0\<close>; the second argument of \<open>placeLoop\<close> counts the tries left.
  The budget \<^verbatim>\<open>tries := n * 10\<close> is a product of 64-bit integers: \<open>wrap64\<close> is the value
  Go keeps of it, so a number of blocks whose tenfold leaves the range can give no
  tries at all.
\<close>

definition wrap64 :: "int \<Rightarrow> int" where
  "wrap64 x = (x + 2 ^ 63) mod 2 ^ 64 - 2 ^ 63"

fun placeLoop ::
  "grid \<Rightarrow> int \<Rightarrow> int \<Rightarrow> int \<Rightarrow> nat \<Rightarrow> (nat \<Rightarrow> int \<times> int) \<Rightarrow> nat \<Rightarrow> grid option" where
  "placeLoop g h w n 0 rnd i = Some g"
| "placeLoop g h w n (Suc tries) rnd i =
     (if n > 0 then
        (if h \<le> 0 \<or> w \<le> 0 then None
         else
           (let r = fst (rnd i) mod h; c = snd (rnd i) mod w
            in case cellAt g r c of
                 None \<Rightarrow> None
               | Some v \<Rightarrow>
                   if v = cellEmpty then
                     (case setCell g r c cellBlk of
                        None \<Rightarrow> None
                      | Some g' \<Rightarrow> placeLoop g' h w (n - 1) tries rnd (Suc i))
                   else placeLoop g h w n tries rnd (Suc i)))
      else Some g)"

definition placeBlocks :: "grid \<Rightarrow> int \<Rightarrow> (nat \<Rightarrow> int \<times> int) \<Rightarrow> grid option" where
  "placeBlocks g n rnd =
     (case index g 0 of
        None \<Rightarrow> None
      | Some row0 \<Rightarrow> placeLoop g (int (length g)) (int (length row0)) n (nat (wrap64 (n * 10))) rnd 0)"

text \<open>
  \<^verbatim>\<open>newGame\<close>: \<^verbatim>\<open>make\<close> panics on a negative length; the fields not named in the
  composite literal have Go's zero values. \<open>now\<close> is the value of \<^verbatim>\<open>time.Now()\<close>.
\<close>

definition newGame :: "int \<Rightarrow> int \<Rightarrow> int \<Rightarrow> int \<Rightarrow> (nat \<Rightarrow> int \<times> int) \<Rightarrow> Game option" where
  "newGame rows cols blocks now rnd =
     (if rows < 0 \<or> (rows > 0 \<and> cols < 0) then None
      else
        (case placeBlocks (replicate (nat rows) (replicate (nat cols) cellEmpty)) blocks rnd of
           None \<Rightarrow> None
         | Some grid' \<Rightarrow>
             Some \<lparr>Rows = rows, Cols = cols, Grid = grid',
                   Winning = replicate (nat rows) (replicate (nat cols) False),
                   Current = cellR, Player1 = [], Player2 = [], ScoresR = 0, ScoresY = 0,
                   Message = [], GameOver = False, Turns = 0, GravityUp = False,
                   Mode = ''local'', CreatedAt = now, Difficulty = [], LobbyCode = [],
                   ThisIsRed = False, LastPlayed = 0\<rparr>))"

section \<open>Playing a column in a session game\<close>

datatype response =
  RedirectRoot | RedirectGame | RedirectResult | RedirectWait
  | MethodNotAllowed | BadRequest | NotFound | NoContent

text \<open>
  The three places where the source puts a piece on the board (the player's move and
  the computer's answer in \<^verbatim>\<open>handlePlay\<close>, the move of \<^verbatim>\<open>handleOnlinePlay\<close>) have
  the same shape: find the landing cell, give up if there is none, write the piece,
  count the turn, ask \<^verbatim>\<open>checkResult\<close>, and if the game goes on hand the turn over and
  flip the gravity on every fifth turn. Each is a function of its own below, returning
  with the game how the move went.
\<close>

datatype outcome = Refused | Ended | Continues

text \<open>
  \<^verbatim>\<open>handlePlay\<close>, on the game that \<^verbatim>\<open>gameForRequest\<close> found for the request. \<open>post\<close>
  says whether the method is POST, \<open>col\<close> is the result of \<^verbatim>\<open>strconv.Atoi\<close> on the
  form value (\<open>None\<close> when it fails). The handler is split where the source has its
  comment "If AI mode and now it's AI's turn": \<open>handlePlayMove\<close> is the player's own
  move up to the gravity flip, \<open>handlePlayAI\<close> the computer's answer.
\<close>

definition handlePlayAI :: "Game \<Rightarrow> (outcome \<times> Game) option" where
  "handlePlayAI g =
     (case chooseAIMove g of
        None \<Rightarrow> None
      | Some (aiCol, g0) \<Rightarrow>
          if aiCol \<ge> 0 then
            (case dropRow (Grid g0) aiCol (GravityUp g0) of
               None \<Rightarrow> None
             | Some rowAI \<Rightarrow>
                 if rowAI = - 1 then Some (Refused, g0)
                 else
                   (case cellAt (Grid g0) rowAI aiCol of
                      None \<Rightarrow> None
                    | Some v \<Rightarrow>
                        if v \<noteq> cellEmpty then Some (Refused, g0)
                        else
                          (case setCell (Grid g0) rowAI aiCol cellY of
                             None \<Rightarrow> None
                           | Some grid1 \<Rightarrow>
                               (case checkResult
                                       (g0\<lparr>Grid := grid1, LastPlayed := Current g0,
                                           Turns := Turns g0 + 1\<rparr>) rowAI aiCol cellY of
                                  None \<Rightarrow> None
                                | Some (True, g2) \<Rightarrow> Some (Ended, g2)
                                | Some (False, g2) \<Rightarrow>
                                    (let g3 = g2\<lparr>Current := cellR\<rparr>
                                     in if Turns g3 mod 5 = 0
                                        then Some (Continues, g3\<lparr>GravityUp := \<not> GravityUp g3,
                                                                  Message := []\<rparr>)
                                        else Some (Continues, g3))))))
          else Some (Refused, g0))"

definition handlePlayMove :: "Game \<Rightarrow> int \<Rightarrow> (outcome \<times> Game) option" where
  "handlePlayMove g c =
     (case dropRow (Grid g) c (GravityUp g) of
        None \<Rightarrow> None
      | Some row \<Rightarrow>
          if row = - 1 then Some (Refused, g)
          else
            (case cellAt (Grid g) row c of
               None \<Rightarrow> None
             | Some v \<Rightarrow>
                 if v \<noteq> cellEmpty then Some (Refused, g)
                 else
                   (case setCell (Grid g) row c (Current g) of
                      None \<Rightarrow> None
                    | Some grid1 \<Rightarrow>
                        (case checkResult
                                (g\<lparr>Grid := grid1, LastPlayed := Current g,
                                   Turns := Turns g + 1\<rparr>) row c (Current g) of
                           None \<Rightarrow> None
                         | Some (True, g2) \<Rightarrow> Some (Ended, g2)
                         | Some (False, g2) \<Rightarrow>
                             (let g3 = g2\<lparr>Current := (if Current g2 = cellR then cellY
                                                           else cellR)\<rparr>
                              in if Turns g3 mod 5 = 0
                                 then Some (Continues, g3\<lparr>GravityUp := \<not> GravityUp g3,
                                                           Message := []\<rparr>)
                                 else Some (Continues, g3))))))"

definition handlePlay :: "Game \<Rightarrow> bool \<Rightarrow> int option \<Rightarrow> (response \<times> Game) option" where
  "handlePlay g post col =
     (if \<not> post then Some (RedirectGame, g)
      else if GameOver g then Some (RedirectResult, g)
      else
        (case col of
           None \<Rightarrow> Some (RedirectGame, g)
         | Some c \<Rightarrow>
             if c < 0 \<or> c \<ge> Cols g then Some (RedirectGame, g)
             else
               (case handlePlayMove g c of
                  None \<Rightarrow> None
                | Some (Refused, g') \<Rightarrow> Some (RedirectGame, g')
                | Some (Ended, g') \<Rightarrow> Some (RedirectResult, g')
                | Some (Continues, g') \<Rightarrow>
                    if Mode g' = ''ai'' \<and> Current g' = cellY \<and> \<not> GameOver g' then
                      (case handlePlayAI g' of
                         None \<Rightarrow> None
                       | Some (Ended, g'') \<Rightarrow> Some (RedirectResult, g'')
                       | Some (_, g'') \<Rightarrow> Some (RedirectGame, g''))
                    else Some (RedirectGame, g'))))"
section \<open>Lobbies, online moves and chat\<close>

text \<open>
  The chat identifiers are \<^verbatim>\<open>int64\<close> counters that start at 0 and grow by one per
  accepted post; like \<open>Turns\<close> they are unbounded integers here. The maps of the server
  hold pointers in the source; the only struct copy that shares a grid between two
  games (\<^verbatim>\<open>*gs = *g\<close> in \<^verbatim>\<open>handleOnlinePlay\<close>) copies a finished game, which no
  handler writes to again, so the maps hold values here.
\<close>

record ChatMessage =
  ID :: int
  When :: int
  Side :: string
  Name :: string
  Text :: string

record lobby =
  Game :: Game
  UpdatedAt :: int
  HasRed :: bool
  HasYellow :: bool
  Chat :: "ChatMessage list"
  NextChatID :: int

record server =
  sessions :: "string \<rightharpoonup> Game"
  lobbies :: "string \<rightharpoonup> lobby"
text \<open>
  \<^verbatim>\<open>handleOnlinePlay\<close>. \<open>code\<close> and \<open>side\<close> are the form values after
  \<^verbatim>\<open>strings.ToUpper(strings.TrimSpace(...))\<close>, \<open>c\<close> is the result of \<^verbatim>\<open>strconv.Atoi\<close>
  (0 when it fails, the error is dropped), \<open>now\<close> is \<^verbatim>\<open>time.Now()\<close> and \<open>sid\<close> the
  fresh identifier that \<^verbatim>\<open>newID\<close> gives to \<^verbatim>\<open>gameForRequest\<close> when the move ends
  the game. \<open>handleOnlineMove\<close> is the part of the handler from the call of
  \<^verbatim>\<open>dropRow\<close> to the gravity flip, on the lobby's game.
\<close>

definition handleOnlineMove :: "Game \<Rightarrow> int \<Rightarrow> (outcome \<times> Game) option" where
  "handleOnlineMove g c =
     (case dropRow (Grid g) c (GravityUp g) of
        None \<Rightarrow> None
      | Some row \<Rightarrow>
          if row = - 1 then Some (Refused, g)
          else
            (case cellAt (Grid g) row c of
               None \<Rightarrow> None
             | Some v \<Rightarrow>
                 if v \<noteq> cellEmpty then Some (Refused, g)
                 else
                   (case setCell (Grid g) row c (Current g) of
                      None \<Rightarrow> None
                    | Some grid1 \<Rightarrow>
                        (case checkResult (g\<lparr>Grid := grid1, Turns := Turns g + 1\<rparr>)
                                row c (Current g) of
                           None \<Rightarrow> None
                         | Some (True, g2) \<Rightarrow> Some (Ended, g2)
                         | Some (False, g2) \<Rightarrow>
                             (let g3 = g2\<lparr>Current := (if Current g2 = cellR then cellY
                                                           else cellR)\<rparr>
                              in if Turns g3 mod 5 = 0
                                 then Some (Continues, g3\<lparr>GravityUp := \<not> GravityUp g3,
                                                           Message := []\<rparr>)
                                 else Some (Continues, g3))))))"

definition handleOnlinePlay ::
  "server \<Rightarrow> bool \<Rightarrow> string \<Rightarrow> string \<Rightarrow> int \<Rightarrow> int \<Rightarrow> string \<Rightarrow> (response \<times> server) option" where
  "handleOnlinePlay s post code side c now sid =
     (if \<not> post then Some (RedirectRoot, s)
      else
        (case lobbies s code of
           None \<Rightarrow> Some (RedirectRoot, s)
         | Some lb \<Rightarrow>
             (let g = Game lb;
                  expect = (if side = ''Y'' then cellY else cellR)
              in if Current g \<noteq> expect \<or> GameOver g then Some (RedirectWait, s)
                 else
                   (case handleOnlineMove g c of
                      None \<Rightarrow> None
                    | Some (Refused, g') \<Rightarrow> Some (RedirectWait, s)
                    | Some (Ended, g') \<Rightarrow>
                        Some (RedirectResult,
                          s\<lparr>lobbies := (lobbies s)(code \<mapsto> lb\<lparr>Game := g', UpdatedAt := now\<rparr>),
                            sessions := (sessions s)(sid \<mapsto> g')\<rparr>)
                    | Some (Continues, g') \<Rightarrow>
                        Some (RedirectWait,
                          s\<lparr>lobbies := (lobbies s)(code \<mapsto> lb\<lparr>Game := g', UpdatedAt := now\<rparr>)\<rparr>)))))"

text \<open>
  \<^verbatim>\<open>handleChatPost\<close>. \<open>code\<close>, \<open>side\<close>, \<open>name\<close> and \<open>text\<close> are the form values after
  trimming (and upper-casing, for the first two). A Go string is a sequence of bytes
  and \<^verbatim>\<open>len\<close> counts bytes, as \<open>length\<close> does on a \<open>string\<close>.
\<close>

definition handleChatPost ::
  "server \<Rightarrow> bool \<Rightarrow> string \<Rightarrow> string \<Rightarrow> string \<Rightarrow> string \<Rightarrow> int \<Rightarrow> response \<times> server" where
  "handleChatPost s post code side name text now =
     (if \<not> post then (MethodNotAllowed, s)
      else if code = [] \<or> (side \<noteq> ''R'' \<and> side \<noteq> ''Y'') \<or> text = [] then (BadRequest, s)
      else
        (let text = (if length text > 240 then take 240 text else text);
             name = (if name = [] then ''Joueur'' else name)
         in case lobbies s code of
              None \<Rightarrow> (NotFound, s)
            | Some lb \<Rightarrow>
                (let lb1 = lb\<lparr>NextChatID := NextChatID lb + 1\<rparr>;
                     msg = \<lparr>ID = NextChatID lb1, When = now, Side = side, Name = name,
                            Text = text\<rparr>;
                     lb2 = lb1\<lparr>Chat := Chat lb1 @ [msg]\<rparr>;
                     lb3 = (if length (Chat lb2) > 200
                            then lb2\<lparr>Chat := drop (length (Chat lb2) - 200) (Chat lb2)\<rparr>
                            else lb2)
                 in (NoContent, s\<lparr>lobbies := (lobbies s)(code \<mapsto> lb3\<lparr>UpdatedAt := now\<rparr>)\<rparr>))))"

text \<open>
  \<^verbatim>\<open>handleChatFeed\<close>, up to the JSON rendering of the items: \<open>since\<close> is the parsed
  query value (0 when it is missing or does not parse).
\<close>

datatype feed = FeedBadRequest | FeedNotFound | FeedItems "ChatMessage list"

fun feedLoop :: "ChatMessage list \<Rightarrow> int \<Rightarrow> ChatMessage list \<Rightarrow> ChatMessage list" where
  "feedLoop [] since out = out"
| "feedLoop (m # ms) since out =
     (if ID m > since then feedLoop ms since (out @ [m]) else feedLoop ms since out)"

definition handleChatFeed :: "server \<Rightarrow> string \<Rightarrow> int \<Rightarrow> feed" where
  "handleChatFeed s code since =
     (if code = [] then FeedBadRequest
      else
        (case lobbies s code of
           None \<Rightarrow> FeedNotFound
         | Some lb \<Rightarrow> FeedItems (feedLoop (Chat lb) since [])))"

text \<open>
  \<^verbatim>\<open>handleOnlineCreate\<close> stores a fresh lobby under a code that is not taken:
  a new game in mode "online", no chat message and the chat counter at 0.
\<close>

definition handleOnlineCreate ::
  "server \<Rightarrow> int \<Rightarrow> int \<Rightarrow> int \<Rightarrow> string \<Rightarrow> string \<Rightarrow> string \<Rightarrow> string \<Rightarrow> string \<Rightarrow> int
     \<Rightarrow> (nat \<Rightarrow> int \<times> int) \<Rightarrow> (response \<times> server) option" where
  "handleOnlineCreate s rows cols blocks p1 p2 diff code generated now rnd =
     (let rows = (if rows \<le> 0 then 6 else rows);
          cols = (if cols \<le> 0 then 7 else cols);
          p1 = (if p1 = [] then ''Rouge'' else p1);
          p2 = (if p2 = [] then ''Jaune'' else p2);
          diff = (if diff = [] then ''easy'' else diff);
          code = (if length code < 4 then generated else code)
      in case lobbies s code of
           Some lb \<Rightarrow> Some (RedirectRoot, s)
         | None \<Rightarrow>
             (case newGame rows cols blocks now rnd of
                None \<Rightarrow> None
              | Some g \<Rightarrow>
                  (let g = g\<lparr>Player1 := p1, Player2 := p2, Difficulty := diff,
                              Mode := ''online'', LobbyCode := code, ThisIsRed := True\<rparr>;
                       lb = \<lparr>Game = g, UpdatedAt = now, HasRed = True, HasYellow = False,
                             Chat = [], NextChatID = 0\<rparr>
                   in Some (RedirectWait, s\<lparr>lobbies := (lobbies s)(code \<mapsto> lb)\<rparr>))))"

text \<open>
  \<^verbatim>\<open>handleOnlineJoin\<close> seats Yellow in an existing lobby; \<open>code\<close> is the query value
  after trimming and upper-casing. A lobby whose yellow seat is taken is left as it is.
\<close>

definition handleOnlineJoin :: "server \<Rightarrow> string \<Rightarrow> int \<Rightarrow> response \<times> server" where
  "handleOnlineJoin s code now =
     (if code = [] then (RedirectRoot, s)
      else
        (case lobbies s code of
           None \<Rightarrow> (RedirectRoot, s)
         | Some lb \<Rightarrow>
             if \<not> HasYellow lb
             then (RedirectWait,
                   s\<lparr>lobbies := (lobbies s)(code \<mapsto> lb\<lparr>HasYellow := True, UpdatedAt := now\<rparr>)\<rparr>)
             else (RedirectWait, s)))"
section \<open>Notions used in the statements\<close>

text \<open>
  The history of the chat of one lobby. \<open>chatRun code s0 ids s\<close>: the server state \<open>s\<close>
  arises from \<open>s0\<close> by the handlers that write to the server state, and \<open>ids\<close> are the
  identifiers given to the messages accepted for the lobby \<open>code\<close> on the way, in the
  order of the posts. The lobbies are written by chat posts, online moves, lobby
  creations and joins; every other handler that writes (the session handlers
  \<^verbatim>\<open>handlePlay\<close>, \<^verbatim>\<open>handleReplay\<close>, \<^verbatim>\<open>handleReset\<close>, \<^verbatim>\<open>handleStartPost\<close> and
  \<^verbatim>\<open>gameForRequest\<close>) writes the map of sessions only, which the last rule replaces by
  any other.
\<close>

inductive chatRun :: "string \<Rightarrow> server \<Rightarrow> int list \<Rightarrow> server \<Rightarrow> bool" for code s0 where
  chatRun_start: "chatRun code s0 [] s0"
| chatRun_post:
    "chatRun code s0 ids s \<Longrightarrow>
     handleChatPost s post code side name text now = (NoContent, s') \<Longrightarrow>
     lobbies s' code = Some lb' \<Longrightarrow>
     chatRun code s0 (ids @ [ID (last (Chat lb'))]) s'"
| chatRun_other:
    "chatRun code s0 ids s \<Longrightarrow>
     handleChatPost s post code' side name text now = (resp, s') \<Longrightarrow>
     resp \<noteq> NoContent \<or> code' \<noteq> code \<Longrightarrow>
     chatRun code s0 ids s'"
| chatRun_play:
    "chatRun code s0 ids s \<Longrightarrow>
     handleOnlinePlay s post code' side c now sid = Some (resp, s') \<Longrightarrow>
     chatRun code s0 ids s'"
| chatRun_create:
    "chatRun code s0 ids s \<Longrightarrow>
     handleOnlineCreate s rows cols blocks p1 p2 diff code' generated now rnd = Some (resp, s') \<Longrightarrow>
     chatRun code s0 ids s'"
| chatRun_join:
    "chatRun code s0 ids s \<Longrightarrow>
     handleOnlineJoin s code' now = (resp, s') \<Longrightarrow>
     chatRun code s0 ids s'"
| chatRun_sessions:
    "chatRun code s0 ids s \<Longrightarrow> chatRun code s0 ids (s\<lparr>sessions := m\<rparr>)"

text \<open>What holds of a lobby's chat along such a history.\<close>

definition chatInv :: "lobby \<Rightarrow> int list \<Rightarrow> bool" where
  "chatInv lb ids =
     (list_all (\<lambda>i. 1 \<le> i \<and> i \<le> NextChatID lb) ids \<and>
      list_all (\<lambda>m. ID m \<in> set ids) (Chat lb) \<and>
      sorted_wrt (<) (map ID (Chat lb)) \<and>
      length (Chat lb) \<le> 200 \<and> 0 \<le> NextChatID lb)"

text \<open>
  A board of the easy difficulty as \<^verbatim>\<open>newGame(6, 7, 3)\<close> makes it when the random
  source draws the cells (0,0), (0,1) and (3,3) for the blocks, and a server that holds
  one fresh lobby with it.
\<close>

definition exampleRnd :: "nat \<Rightarrow> int \<times> int" where
  "exampleRnd i = (if i = 0 then (0, 0) else if i = 1 then (0, 1) else (3, 3))"

definition exampleGame :: Game where
  "exampleGame =
     \<lparr>Rows = 6, Cols = 7,
      Grid = [[88, 88, 0, 0, 0, 0, 0], [0, 0, 0, 0, 0, 0, 0], [0, 0, 0, 0, 0, 0, 0],
              [0, 0, 0, 88, 0, 0, 0], [0, 0, 0, 0, 0, 0, 0], [0, 0, 0, 0, 0, 0, 0]],
      Winning = replicate 6 (replicate 7 False),
      Current = cellR, Player1 = [], Player2 = [], ScoresR = 0, ScoresY = 0,
      Message = [], GameOver = False, Turns = 0, GravityUp = False,
      Mode = ''local'', CreatedAt = 0, Difficulty = [], LobbyCode = [],
      ThisIsRed = False, LastPlayed = 0\<rparr>"

definition exampleLobby :: lobby where
  "exampleLobby =
     \<lparr>Game = exampleGame\<lparr>Player1 := ''Rouge'', Player2 := ''Jaune'', Difficulty := ''easy'',
                          Mode := ''online'', LobbyCode := ''ABCD'', ThisIsRed := True\<rparr>,
      UpdatedAt = 0, HasRed = True, HasYellow = False, Chat = [], NextChatID = 0\<rparr>"

definition exampleServer :: server where
  "exampleServer = \<lparr>sessions = Map.empty, lobbies = [''ABCD'' \<mapsto> exampleLobby]\<rparr>"

definition exampleServer1 :: server where
  "exampleServer1 = snd (handleChatPost exampleServer True ''ABCD'' ''R'' ''Ann'' ''hello'' 5)"

text \<open>The same server after Yellow has joined the lobby.\<close>

definition exampleServer2 :: server where
  "exampleServer2 = snd (handleOnlineJoin exampleServer1 ''ABCD'' 6)"

text \<open>
  The number of characters of a text in UTF-8: the bytes that do not continue a
  character (a continuation byte has the value 128 to 191). \<open>exampleText\<close> is the letter
  e with an acute accent, two bytes in UTF-8, 121 times.
\<close>

definition utf8Length :: "string \<Rightarrow> nat" where
  "utf8Length s = length (filter (\<lambda>ch. \<not> (128 \<le> (of_char ch :: nat) \<and> (of_char ch :: nat) < 192)) s)"

definition exampleText :: string where
  "exampleText = concat (replicate 121 [CHR 0xC3, CHR 0xA9])"

text \<open>
  Straight lines of cells. \<open>ray r c d n\<close> is the list of the \<open>n\<close> cells that start at
  \<open>(r, c)\<close> and follow each other in steps of \<open>d\<close>. \<open>isRun g p r c d line\<close>: \<open>line\<close> is the
  run of \<open>p\<close> through \<open>(r, c)\<close> along \<open>d\<close>, from one end to the other: the cell \<open>(r, c)\<close>
  itself, the \<open>f\<close> cells after it and the \<open>b\<close> cells before it that hold \<open>p\<close>, where
  the next cell on either side is outside the grid or holds something else.
\<close>

definition ray :: "int \<Rightarrow> int \<Rightarrow> int \<times> int \<Rightarrow> nat \<Rightarrow> (int \<times> int) list" where
  "ray r c d n = map (\<lambda>k. (r + int k * fst d, c + int k * snd d)) [0..<n]"

definition isRun :: "grid \<Rightarrow> byte \<Rightarrow> int \<Rightarrow> int \<Rightarrow> int \<times> int \<Rightarrow> (int \<times> int) list \<Rightarrow> bool" where
  "isRun g p r c d line =
     (\<exists>b f. line = ray (r - int b * fst d) (c - int b * snd d) d (b + 1 + f) \<and>
        (\<forall>k<f. cellAt g (r + (int k + 1) * fst d) (c + (int k + 1) * snd d) = Some p) \<and>
        cellAt g (r + (int f + 1) * fst d) (c + (int f + 1) * snd d) \<noteq> Some p \<and>
        (\<forall>k<b. cellAt g (r - (int k + 1) * fst d) (c - (int k + 1) * snd d) = Some p) \<and>
        cellAt g (r - (int b + 1) * fst d) (c - (int b + 1) * snd d) \<noteq> Some p)"

text \<open>
  The number of steps of \<open>d\<close> that can at most be taken from \<open>(rr, cc)\<close> inside the
  grid; it measures the progress of the loops of \<^verbatim>\<open>winningLine\<close>.
\<close>

definition toEdge :: "int \<Rightarrow> int \<Rightarrow> int \<times> int \<Rightarrow> int \<Rightarrow> int \<Rightarrow> nat" where
  "toEdge h w d rr cc =
     (if fst d > 0 then nat (h - rr) else if fst d < 0 then nat (rr + 1)
      else if snd d > 0 then nat (w - cc) else nat (cc + 1))"

text \<open>
  A game as \<^verbatim>\<open>newGame\<close> allocates it and the handlers keep it: the grid has a row,
  all rows have the same length, and the table \<open>Winning\<close> has the shape of the grid.
\<close>

definition wfGame :: "Game \<Rightarrow> bool" where
  "wfGame g =
     (Grid g \<noteq> [] \<and> rectangular (Grid g) \<and> Winning g \<noteq> [] \<and> rectangular (Winning g) \<and>
      length (Winning g) = length (Grid g) \<and> length (Winning g ! 0) = length (Grid g ! 0))"

text \<open>
  A board on which the bottom-left cell lies on a horizontal run of four red pieces
  and on a vertical run of five.
\<close>

definition exampleLines :: Game where
  "exampleLines =
     exampleGame\<lparr>Grid := [[88, 88, 0, 0, 0, 0, 0], [82, 0, 0, 0, 0, 0, 0], [82, 0, 0, 0, 0, 0, 0],
                          [82, 0, 0, 88, 0, 0, 0], [82, 0, 0, 0, 0, 0, 0], [82, 82, 82, 82, 0, 0, 0]]\<rparr>"

text \<open>
  Handing the turn to \<open>nxt\<close> after a move that did not end the game, with the gravity
  flip on every fifth turn: what the three move functions do after \<^verbatim>\<open>checkResult\<close>.
\<close>

definition passTurn :: "Game \<Rightarrow> byte \<Rightarrow> Game" where
  "passTurn g nxt =
     (if Turns g mod 5 = 0
      then g\<lparr>Current := nxt, GravityUp := \<not> GravityUp g, Message := []\<rparr>
      else g\<lparr>Current := nxt\<rparr>)"

text \<open>
  One applied move. \<open>move g g'\<close>: the game \<open>g'\<close> is \<open>g\<close> after one piece has been placed,
  by the player in \<^verbatim>\<open>handlePlay\<close>, by the computer in \<^verbatim>\<open>handlePlay\<close> or by a player in
  \<^verbatim>\<open>handleOnlinePlay\<close>, under the conditions under which the handlers get that far.
  \<open>played g0 n g\<close>: \<open>g\<close> is \<open>g0\<close> after \<open>n\<close> applied moves.
\<close>

inductive move :: "Game \<Rightarrow> Game \<Rightarrow> bool" where
  move_player:
    "\<not> GameOver g \<Longrightarrow> 0 \<le> c \<Longrightarrow> c < Cols g \<Longrightarrow>
     handlePlayMove g c = Some (oc, g') \<Longrightarrow> oc \<noteq> Refused \<Longrightarrow> move g g'"
| move_computer:
    "Mode g = ''ai'' \<Longrightarrow> Current g = cellY \<Longrightarrow> \<not> GameOver g \<Longrightarrow>
     handlePlayAI g = Some (oc, g') \<Longrightarrow> oc \<noteq> Refused \<Longrightarrow> move g g'"
| move_online:
    "Current g = (if side = ''Y'' then cellY else cellR) \<Longrightarrow> \<not> GameOver g \<Longrightarrow>
     handleOnlineMove g c = Some (oc, g') \<Longrightarrow> oc \<noteq> Refused \<Longrightarrow> move g g'"

inductive played :: "Game \<Rightarrow> nat \<Rightarrow> Game \<Rightarrow> bool" for g0 where
  played_start: "played g0 0 g0"
| played_move: "played g0 n g \<Longrightarrow> move g g' \<Longrightarrow> played g0 (Suc n) g'"

text \<open>A session game played through \<^verbatim>\<open>handlePlay\<close> with a list of columns, one POST each.\<close>

fun playAll :: "Game \<Rightarrow> int list \<Rightarrow> Game option" where
  "playAll g [] = Some g"
| "playAll g (c # cs) =
     (case handlePlay g True (Some c) of
        None \<Rightarrow> None
      | Some (resp, g') \<Rightarrow> playAll g' cs)"

text \<open>
  The game \<open>exampleGame\<close> after the columns 0, 1, 2, 3 have been played, after column 4 as
  well, and after 0, 1, 2, 3, 4, 2, 3, 4, 5, 6.
\<close>

definition example4 :: Game where
  "example4 =
     exampleGame\<lparr>Grid := [[88, 88, 0, 0, 0, 0, 0], [0, 0, 0, 0, 0, 0, 0], [0, 0, 0, 0, 0, 0, 0],
                          [0, 0, 0, 88, 0, 0, 0], [0, 0, 0, 0, 0, 0, 0], [82, 89, 82, 89, 0, 0, 0]],
                 Turns := 4, LastPlayed := cellY\<rparr>"

definition example5 :: Game where
  "example5 =
     exampleGame\<lparr>Grid := [[88, 88, 0, 0, 0, 0, 0], [0, 0, 0, 0, 0, 0, 0], [0, 0, 0, 0, 0, 0, 0],
                          [0, 0, 0, 88, 0, 0, 0], [0, 0, 0, 0, 0, 0, 0], [82, 89, 82, 89, 82, 0, 0]],
                 Current := cellY, Turns := 5, GravityUp := True, LastPlayed := cellR\<rparr>"

definition exampleDraw :: Game where
  "exampleDraw =
     exampleGame\<lparr>Grid := [[88, 88, 89, 82, 89, 82, 89], [0, 0, 0, 0, 0, 0, 0], [0, 0, 0, 0, 0, 0, 0],
                          [0, 0, 0, 88, 0, 0, 0], [0, 0, 0, 0, 0, 0, 0], [82, 89, 82, 89, 82, 0, 0]],
                 Current := cellY, Message := drawMessage, GameOver := True, Turns := 10,
                 GravityUp := True, LastPlayed := cellY\<rparr>"

definition example9 :: Game where
  "example9 =
     exampleGame\<lparr>Grid := [[88, 88, 89, 82, 89, 82, 0], [0, 0, 0, 0, 0, 0, 0], [0, 0, 0, 0, 0, 0, 0],
                          [0, 0, 0, 88, 0, 0, 0], [0, 0, 0, 0, 0, 0, 0], [82, 89, 82, 89, 82, 0, 0]],
                 Current := cellY, Turns := 9, GravityUp := True, LastPlayed := cellR\<rparr>"

text \<open>
  A game against the computer on the same board. \<open>exampleAI\<close> is the start and
  \<open>exampleAI2\<close>, \<open>exampleAI4\<close>, \<open>exampleAI6\<close>, \<open>exampleAI8\<close>, \<open>exampleAI10\<close> are the games after
  the player's columns 0, 0, 6, 6, 6, each with the computer's answer (column 3 every
  time). \<open>exampleAI11\<close> is the game after the player's next piece in column 0, where the
  computer is to move: Red has three pieces on top of each other in column 0 and the
  cell above them is empty. \<open>exampleTry0\<close> and \<open>exampleTry2\<close> are that game with the trial
  piece of \<^verbatim>\<open>chooseAIMove\<close> in column 0 and in column 2. \<open>exampleAI12\<close> is the game
  after the computer's answer and \<open>exampleAI13\<close> the game after the player's column 0.
\<close>

definition exampleAI :: Game where
  "exampleAI = exampleGame\<lparr>Mode := ''ai''\<rparr>"

definition exampleAI10 :: Game where
  "exampleAI10 =
     exampleGame\<lparr>Grid := [[88, 88, 0, 89, 0, 0, 82], [0, 0, 0, 89, 0, 0, 82], [0, 0, 0, 89, 0, 0, 0],
                          [0, 0, 0, 88, 0, 0, 0], [82, 0, 0, 89, 0, 0, 0], [82, 0, 0, 89, 0, 0, 82]],
                 Turns := 10, Mode := ''ai'', LastPlayed := cellY\<rparr>"

definition exampleAI11 :: Game where
  "exampleAI11 =
     exampleGame\<lparr>Grid := [[88, 88, 0, 89, 0, 0, 82], [0, 0, 0, 89, 0, 0, 82], [0, 0, 0, 89, 0, 0, 0],
                          [82, 0, 0, 88, 0, 0, 0], [82, 0, 0, 89, 0, 0, 0], [82, 0, 0, 89, 0, 0, 82]],
                 Current := cellY, Turns := 11, Mode := ''ai'', LastPlayed := cellR\<rparr>"

definition exampleAI12 :: Game where
  "exampleAI12 =
     exampleGame\<lparr>Grid := [[88, 88, 0, 89, 0, 0, 82], [0, 0, 0, 89, 0, 0, 82], [0, 0, 0, 89, 0, 0, 0],
                          [82, 0, 0, 88, 0, 0, 0], [82, 0, 0, 89, 0, 0, 0], [82, 0, 89, 89, 0, 0, 82]],
                 Turns := 12, Mode := ''ai'', LastPlayed := cellY\<rparr>"

definition exampleAI2 :: Game where
  "exampleAI2 =
     exampleGame\<lparr>Grid := [[88, 88, 0, 0, 0, 0, 0], [0, 0, 0, 0, 0, 0, 0], [0, 0, 0, 0, 0, 0, 0],
                          [0, 0, 0, 88, 0, 0, 0], [0, 0, 0, 0, 0, 0, 0], [82, 0, 0, 89, 0, 0, 0]],
                 Turns := 2, Mode := ''ai'', LastPlayed := cellY\<rparr>"

definition exampleAI4 :: Game where
  "exampleAI4 =
     exampleGame\<lparr>Grid := [[88, 88, 0, 0, 0, 0, 0], [0, 0, 0, 0, 0, 0, 0], [0, 0, 0, 0, 0, 0, 0],
                          [0, 0, 0, 88, 0, 0, 0], [82, 0, 0, 89, 0, 0, 0], [82, 0, 0, 89, 0, 0, 0]],
                 Turns := 4, Mode := ''ai'', LastPlayed := cellY\<rparr>"

definition exampleAI6 :: Game where
  "exampleAI6 =
     exampleGame\<lparr>Grid := [[88, 88, 0, 89, 0, 0, 0], [0, 0, 0, 0, 0, 0, 0], [0, 0, 0, 0, 0, 0, 0],
                          [0, 0, 0, 88, 0, 0, 0], [82, 0, 0, 89, 0, 0, 0], [82, 0, 0, 89, 0, 0, 82]],
                 Turns := 6, GravityUp := True, Mode := ''ai'', LastPlayed := cellY\<rparr>"

definition exampleAI8 :: Game where
  "exampleAI8 =
     exampleGame\<lparr>Grid := [[88, 88, 0, 89, 0, 0, 82], [0, 0, 0, 89, 0, 0, 0], [0, 0, 0, 0, 0, 0, 0],
                          [0, 0, 0, 88, 0, 0, 0], [82, 0, 0, 89, 0, 0, 0], [82, 0, 0, 89, 0, 0, 82]],
                 Turns := 8, GravityUp := True, Mode := ''ai'', LastPlayed := cellY\<rparr>"

definition exampleTry0 :: Game where
  "exampleTry0 =
     exampleAI11\<lparr>Grid := [[88, 88, 0, 89, 0, 0, 82], [0, 0, 0, 89, 0, 0, 82], [89, 0, 0, 89, 0, 0, 0],
                          [82, 0, 0, 88, 0, 0, 0], [82, 0, 0, 89, 0, 0, 0], [82, 0, 0, 89, 0, 0, 82]]\<rparr>"

definition exampleTry2 :: Game where
  "exampleTry2 =
     exampleAI11\<lparr>Grid := [[88, 88, 0, 89, 0, 0, 82], [0, 0, 0, 89, 0, 0, 82], [0, 0, 0, 89, 0, 0, 0],
                          [82, 0, 0, 88, 0, 0, 0], [82, 0, 0, 89, 0, 0, 0], [82, 0, 89, 89, 0, 0, 82]]\<rparr>"

definition exampleAI13 :: Game where
  "exampleAI13 =
     exampleGame\<lparr>Grid := [[88, 88, 0, 89, 0, 0, 82], [0, 0, 0, 89, 0, 0, 82], [82, 0, 0, 89, 0, 0, 0],
                          [82, 0, 0, 88, 0, 0, 0], [82, 0, 0, 89, 0, 0, 0], [82, 0, 89, 89, 0, 0, 82]],
                 Winning := [[False, False, False, False, False, False, False],
                             [False, False, False, False, False, False, False],
                             [True, False, False, False, False, False, False],
                             [True, False, False, False, False, False, False],
                             [True, False, False, False, False, False, False],
                             [True, False, False, False, False, False, False]],
                 ScoresR := 1, GameOver := True, Turns := 13, Mode := ''ai'', LastPlayed := cellR\<rparr>"

text \<open>
  An immediate win: \<open>winsAt g p c\<close> says that column \<open>c\<close> takes a piece and that the piece
  of player \<open>p\<close> dropped there lies on a line of at least four, as \<^verbatim>\<open>winningLine\<close>
  finds it. \<open>immediateWins g p\<close> lists the columns where \<open>p\<close> wins at once.
\<close>

definition winsAt :: "Game \<Rightarrow> byte \<Rightarrow> int \<Rightarrow> bool" where
  "winsAt g p c =
     (case dropRow (Grid g) c (GravityUp g) of
        None \<Rightarrow> False
      | Some r \<Rightarrow>
          r \<noteq> - 1 \<and> cellAt (Grid g) r c = Some cellEmpty \<and>
          (case setCell (Grid g) r c p of
             None \<Rightarrow> False
           | Some g1 \<Rightarrow>
               (case winningLine g1 r c p of
                  None \<Rightarrow> False
                | Some line \<Rightarrow> length line \<ge> 4)))"

definition immediateWins :: "Game \<Rightarrow> byte \<Rightarrow> int list" where
  "immediateWins g p = filter (winsAt g p) [0..Cols g - 1]"
section \<open>Properties: the difficulty table\<close>

text \<open>
  Claim C4. The specification and the README give the boards as easy 6 by 7 with 3
  obstacles, normal 6 by 8 with 5 and hard 6 by 9 with 7. The function returns rows,
  columns and blocks in that order: easy is as documented, but normal comes out as
  6 rows by 9 columns and hard as 7 rows by 8 columns.
\<close>

theorem configByDifficulty_values:
  "configByDifficulty ''easy'' = (6, 7, 3) \<and>
   configByDifficulty ''normal'' = (6, 9, 5) \<and>
   configByDifficulty ''hard'' = (7, 8, 7)"
  by (simp add: configByDifficulty_def)

section \<open>Properties: the landing cell\<close>

lemma rectangular_length:
  assumes "rectangular g" "0 \<le> r" "r < int (length g)"
  shows "length (g ! nat r) = length (g ! 0)"
proof -
  from assms have n: "nat r < length g" "0 < length g" by auto
  then have "g ! nat r \<in> set g" "hd g = g ! 0" by (auto simp: hd_conv_nth)
  with assms(1) show ?thesis by (simp add: rectangular_def list_all_iff)
qed

lemma cellAt_rect:
  "rectangular g \<Longrightarrow> 0 \<le> r \<Longrightarrow> r < int (length g) \<Longrightarrow> 0 \<le> c \<Longrightarrow> c < int (length (g ! 0))
   \<Longrightarrow> cellAt g r c = Some (g ! nat r ! nat c)"
  using rectangular_length[of g r] by (simp add: cellAt_def index_def)

lemma cellAt_Some_range:
  "cellAt g r c = Some v \<Longrightarrow> 0 \<le> r \<and> r < int (length g)"
  by (auto simp: cellAt_def index_def split: option.splits if_splits)

lemma cellAt_rect_None:
  "rectangular g \<Longrightarrow> \<not> (0 \<le> c \<and> c < int (length (g ! 0))) \<Longrightarrow> cellAt g r c = None"
  using rectangular_length[of g r] by (auto simp: cellAt_def index_def split: option.splits)

lemma scanRows_find:
  "\<forall>r\<in>set rs. cellAt g r col \<noteq> None \<Longrightarrow>
   scanRows g col rs =
     Some (case List.find (\<lambda>r. cellAt g r col = Some cellEmpty) rs of None \<Rightarrow> - 1 | Some r \<Rightarrow> r)"
  by (induction rs) (auto split: option.splits)

lemma find_sorted_least:
  "sorted xs \<Longrightarrow> List.find P xs = Some r \<Longrightarrow>
   r \<in> set xs \<and> P r \<and> (\<forall>r'\<in>set xs. P r' \<longrightarrow> r \<le> r')"
  by (induction xs) (auto split: if_splits)

lemma find_sorted_rev_greatest:
  "sorted (rev xs) \<Longrightarrow> List.find P xs = Some r \<Longrightarrow>
   r \<in> set xs \<and> P r \<and> (\<forall>r'\<in>set xs. P r' \<longrightarrow> r' \<le> r)"
  by (induction xs) (auto simp: sorted_append split: if_splits)

lemma scanRows_up:
  assumes "\<forall>r\<in>set [0..h]. cellAt g r col \<noteq> None"
  shows "\<exists>r. scanRows g col [0..h] = Some r \<and>
           (r = - 1 \<longleftrightarrow> (\<forall>r'\<in>{0..h}. cellAt g r' col \<noteq> Some cellEmpty)) \<and>
           (r \<noteq> - 1 \<longrightarrow> 0 \<le> r \<and> r \<le> h \<and> cellAt g r col = Some cellEmpty \<and>
              (\<forall>r'\<in>{0..h}. cellAt g r' col = Some cellEmpty \<longrightarrow> r \<le> r'))"
proof (cases "List.find (\<lambda>r. cellAt g r col = Some cellEmpty) [0..h]")
  case None
  then have a: "scanRows g col [0..h] = Some (- 1)" using scanRows_find[OF assms] by simp
  have b: "\<forall>r'\<in>{0..h}. cellAt g r' col \<noteq> Some cellEmpty"
    using None by (auto simp: find_None_iff)
  show ?thesis using a b by auto
next
  case (Some r)
  from find_sorted_least[OF _ Some] have "r \<in> set [0..h]" "cellAt g r col = Some cellEmpty"
    "\<forall>r'\<in>set [0..h]. cellAt g r' col = Some cellEmpty \<longrightarrow> r \<le> r'" by auto
  then show ?thesis using scanRows_find[OF assms] Some by auto
qed

lemma scanRows_down:
  assumes "\<forall>r\<in>set (rev [0..h]). cellAt g r col \<noteq> None"
  shows "\<exists>r. scanRows g col (rev [0..h]) = Some r \<and>
           (r = - 1 \<longleftrightarrow> (\<forall>r'\<in>{0..h}. cellAt g r' col \<noteq> Some cellEmpty)) \<and>
           (r \<noteq> - 1 \<longrightarrow> 0 \<le> r \<and> r \<le> h \<and> cellAt g r col = Some cellEmpty \<and>
              (\<forall>r'\<in>{0..h}. cellAt g r' col = Some cellEmpty \<longrightarrow> r' \<le> r))"
proof (cases "List.find (\<lambda>r. cellAt g r col = Some cellEmpty) (rev [0..h])")
  case None
  then have a: "scanRows g col (rev [0..h]) = Some (- 1)" using scanRows_find[OF assms] by simp
  have b: "\<forall>r'\<in>{0..h}. cellAt g r' col \<noteq> Some cellEmpty"
    using None by (auto simp: find_None_iff)
  show ?thesis using a b by auto
next
  case (Some r)
  from find_sorted_rev_greatest[OF _ Some] have "r \<in> set [0..h]" "cellAt g r col = Some cellEmpty"
    "\<forall>r'\<in>set [0..h]. cellAt g r' col = Some cellEmpty \<longrightarrow> r' \<le> r" by auto
  then show ?thesis using scanRows_find[OF assms] Some by auto
qed

lemma dropRow_cases:
  assumes "rectangular g"
  shows "\<exists>r. dropRow g col up = Some r \<and>
           (r = - 1 \<longleftrightarrow> (\<forall>r'. cellAt g r' col \<noteq> Some cellEmpty)) \<and>
           (r \<noteq> - 1 \<longrightarrow> cellAt g r col = Some cellEmpty \<and>
              (\<forall>r'. cellAt g r' col = Some cellEmpty \<longrightarrow> (if up then r \<le> r' else r' \<le> r)))"
proof (cases "length g = 0 \<or> col < 0 \<or> col \<ge> int (length (g ! 0))")
  case True
  then have "dropRow g col up = Some (- 1)" by (auto simp: dropRow_def)
  moreover have "cellAt g r' col = None" for r'
  proof (cases "length g = 0")
    case True then show ?thesis by (simp add: cellAt_def index_def)
  next
    case False with True show ?thesis using cellAt_rect_None[OF assms] by auto
  qed
  ultimately show ?thesis by simp
next
  case False
  define h where "h = int (length g) - 1"
  have rd: "cellAt g r col \<noteq> None" if "r \<in> {0..h}" for r
    using that False cellAt_rect[OF assms, of r col] by (auto simp: h_def)
  have out: "cellAt g r col = Some v \<Longrightarrow> r \<in> {0..h}" for r v
    using cellAt_Some_range[of g r col v] by (auto simp: h_def)
  have all_eq: "(\<forall>r'\<in>{0..h}. cellAt g r' col \<noteq> Some cellEmpty) \<longleftrightarrow>
      (\<forall>r'. cellAt g r' col \<noteq> Some cellEmpty)"
    using out by blast
  show ?thesis
  proof (cases up)
    case True
    have "dropRow g col up = scanRows g col [0..h]"
      using False True by (simp add: dropRow_def h_def Let_def)
    moreover from scanRows_up[of h g col] rd obtain r where
      "scanRows g col [0..h] = Some r"
      "r = - 1 \<longleftrightarrow> (\<forall>r'\<in>{0..h}. cellAt g r' col \<noteq> Some cellEmpty)"
      "r \<noteq> - 1 \<longrightarrow> 0 \<le> r \<and> r \<le> h \<and> cellAt g r col = Some cellEmpty \<and>
              (\<forall>r'\<in>{0..h}. cellAt g r' col = Some cellEmpty \<longrightarrow> r \<le> r')" by auto
    ultimately have "dropRow g col up = Some r"
      "r = - 1 \<longleftrightarrow> (\<forall>r'. cellAt g r' col \<noteq> Some cellEmpty)"
      "r \<noteq> - 1 \<longrightarrow> cellAt g r col = Some cellEmpty"
      "r \<noteq> - 1 \<longrightarrow> (\<forall>r'. cellAt g r' col = Some cellEmpty \<longrightarrow> r \<le> r')"
      using out all_eq by (simp, simp, simp, blast)
    then show ?thesis using True by auto
  next
    case up: False
    have "dropRow g col up = scanRows g col (rev [0..h])"
      using False up by (simp add: dropRow_def h_def Let_def)
    moreover from scanRows_down[of h g col] rd obtain r where
      "scanRows g col (rev [0..h]) = Some r"
      "r = - 1 \<longleftrightarrow> (\<forall>r'\<in>{0..h}. cellAt g r' col \<noteq> Some cellEmpty)"
      "r \<noteq> - 1 \<longrightarrow> 0 \<le> r \<and> r \<le> h \<and> cellAt g r col = Some cellEmpty \<and>
              (\<forall>r'\<in>{0..h}. cellAt g r' col = Some cellEmpty \<longrightarrow> r' \<le> r)" by auto
    ultimately have "dropRow g col up = Some r"
      "r = - 1 \<longleftrightarrow> (\<forall>r'. cellAt g r' col \<noteq> Some cellEmpty)"
      "r \<noteq> - 1 \<longrightarrow> cellAt g r col = Some cellEmpty"
      "r \<noteq> - 1 \<longrightarrow> (\<forall>r'. cellAt g r' col = Some cellEmpty \<longrightarrow> r' \<le> r)"
      using out all_eq by (simp, simp, simp, blast)
    then show ?thesis using up by auto
  qed
qed

text \<open>
  Claim C3. On a rectangular grid \<^verbatim>\<open>dropRow\<close> returns, for every column: \<open>-1\<close> exactly
  when no cell of the column is empty, and otherwise an empty cell of the column such
  that every empty cell of the column has a row index at most its own (normal gravity)
  or at least its own (inverted gravity). What the other cells of the column hold,
  pieces or blocks, plays no part: they are passed over.
\<close>

theorem dropRow_spec:
  assumes "rectangular g"
  shows "\<exists>r. dropRow g col up = Some r \<and>
           (r = - 1 \<longleftrightarrow> (\<forall>r'. cellAt g r' col \<noteq> Some cellEmpty)) \<and>
           (r \<noteq> - 1 \<longrightarrow> cellAt g r col = Some cellEmpty \<and>
              (\<forall>r'. cellAt g r' col = Some cellEmpty \<longrightarrow> (if up then r \<le> r' else r' \<le> r)))"
  using dropRow_cases[OF assms] .

theorem dropRow_spec_witness:
  "rectangular ([[0, 0], [88, 0], [82, 0]] :: grid) \<and>
   dropRow [[0, 0], [88, 0], [82, 0]] 0 False = Some 0 \<and>
   (\<exists>r. dropRow [[0, 0], [88, 0], [82, 0]] 0 False = Some r \<and>
      (r = - 1 \<longleftrightarrow> (\<forall>r'. cellAt [[0, 0], [88, 0], [82, 0]] r' 0 \<noteq> Some cellEmpty)) \<and>
      (r \<noteq> - 1 \<longrightarrow> cellAt [[0, 0], [88, 0], [82, 0]] r 0 = Some cellEmpty \<and>
         (\<forall>r'. cellAt [[0, 0], [88, 0], [82, 0]] r' 0 = Some cellEmpty \<longrightarrow>
            (if False then r \<le> r' else r' \<le> r))))"
proof -
  have h: "rectangular ([[0, 0], [88, 0], [82, 0]] :: grid)" by (simp add: rectangular_def)
  have v: "dropRow [[0, 0], [88, 0], [82, 0]] 0 False = Some 0" by code_simp
  from h v dropRow_spec[OF h, of 0 False] show ?thesis by blast
qed

section \<open>Properties: the chat\<close>

lemma handleChatPost_accept:
  assumes "lobbies s code = Some lb" "code \<noteq> []" "text \<noteq> []" "side = ''R'' \<or> side = ''Y''"
  shows "handleChatPost s True code side name text now =
     (NoContent, s\<lparr>lobbies := (lobbies s)(code \<mapsto>
        lb\<lparr>NextChatID := NextChatID lb + 1,
           Chat := drop (length (Chat lb) + 1 - 200)
              (Chat lb @ [\<lparr>ID = NextChatID lb + 1, When = now, Side = side,
                 Name = (if name = [] then ''Joueur'' else name), Text = take 240 text\<rparr>]),
           UpdatedAt := now\<rparr>)\<rparr>)"
  using assms by (auto simp: handleChatPost_def Let_def)

lemma handleChatPost_NoContent:
  assumes "handleChatPost s post code side name text now = (NoContent, s')"
  shows "post \<and> code \<noteq> [] \<and> text \<noteq> [] \<and> (side = ''R'' \<or> side = ''Y'') \<and> (\<exists>lb. lobbies s code = Some lb)"
  using assms by (auto simp: handleChatPost_def Let_def split: if_splits option.splits)

lemma handleChatPost_reject:
  assumes "handleChatPost s post code side name text now = (resp, s')" "resp \<noteq> NoContent"
  shows "s' = s"
  using assms by (auto simp: handleChatPost_def Let_def split: if_splits option.splits)

lemma handleChatPost_other:
  assumes "handleChatPost s post code' side name text now = (resp, s')" "code' \<noteq> code"
  shows "lobbies s' code = lobbies s code"
  using assms by (auto simp: handleChatPost_def Let_def split: if_splits option.splits)

lemma handleOnlinePlay_lobby:
  assumes "handleOnlinePlay s post code' side c now sid = Some (resp, s')" "lobbies s code = Some lb"
  shows "\<exists>g' t. lobbies s' code = Some (lb\<lparr>Game := g', UpdatedAt := t\<rparr>)"
proof (cases "s' = s")
  case True
  with assms(2) show ?thesis by (intro exI[of _ "Game lb"] exI[of _ "UpdatedAt lb"]) simp
next
  case False
  with assms(1) obtain lb0 g' where
    "lobbies s code' = Some lb0"
    "lobbies s' = (lobbies s)(code' \<mapsto> lb0\<lparr>Game := g', UpdatedAt := now\<rparr>)"
    by (auto simp: handleOnlinePlay_def Let_def
        split: if_splits option.splits prod.splits outcome.splits)
  with assms(2) show ?thesis
  proof (cases "code' = code")
    case True
    with \<open>lobbies s code' = Some lb0\<close> assms(2) have "lb0 = lb" by simp
    with True \<open>lobbies s' = _\<close> show ?thesis by auto
  next
    case False
    with \<open>lobbies s' = _\<close> assms(2) have "lobbies s' code = Some (lb\<lparr>Game := Game lb, UpdatedAt := UpdatedAt lb\<rparr>)" by simp
    then show ?thesis by blast
  qed
qed

lemma handleOnlineCreate_lobby:
  assumes "handleOnlineCreate s rows cols blocks p1 p2 diff code' generated now rnd = Some (resp, s')"
    "lobbies s code = Some lb"
  shows "lobbies s' code = Some lb"
  using assms
  by (auto simp: handleOnlineCreate_def Let_def split: if_splits option.splits)

lemma handleOnlineJoin_lobby:
  assumes "handleOnlineJoin s code' now = (resp, s')" "lobbies s code = Some lb"
  shows "\<exists>lb'. lobbies s' code = Some lb' \<and> Chat lb' = Chat lb \<and> NextChatID lb' = NextChatID lb"
proof (cases "s' = s")
  case True
  with assms(2) show ?thesis by simp
next
  case False
  with assms(1) obtain lb0 where
    "lobbies s code' = Some lb0"
    "lobbies s' = (lobbies s)(code' \<mapsto> lb0\<lparr>HasYellow := True, UpdatedAt := now\<rparr>)"
    by (auto simp: handleOnlineJoin_def split: if_splits option.splits)
  with assms(2) show ?thesis by (cases "code' = code") auto
qed

lemma chatInv_post:
  assumes "chatInv lb ids"
  shows "chatInv (lb\<lparr>NextChatID := NextChatID lb + 1,
           Chat := drop (length (Chat lb) + 1 - 200) (Chat lb @ [\<lparr>ID = NextChatID lb + 1, When = now, Side = side,
                 Name = nm, Text = tx\<rparr>]),
           UpdatedAt := now\<rparr>) (ids @ [NextChatID lb + 1])"
proof -
  let ?m = "\<lparr>ID = NextChatID lb + 1, When = now, Side = side, Name = nm, Text = tx\<rparr>"
  let ?k = "length (Chat lb) + 1 - 200"
  from assms have a: "\<forall>i\<in>set ids. 1 \<le> i \<and> i \<le> NextChatID lb"
    "\<forall>m\<in>set (Chat lb). ID m \<in> set ids" "sorted_wrt (<) (map ID (Chat lb))"
    "length (Chat lb) \<le> 200" "0 \<le> NextChatID lb"
    by (simp_all add: chatInv_def list_all_iff)
  from a(1,2) have lt: "\<forall>m\<in>set (Chat lb). ID m < NextChatID lb + 1" by fastforce
  have s: "sorted_wrt (\<lambda>a b. ID a < ID b) (Chat lb @ [?m])"
    using a(3) lt by (simp add: sorted_wrt_append sorted_wrt_map)
  have 1: "sorted_wrt (<) (map ID (drop ?k (Chat lb @ [?m])))"
    using sorted_wrt_drop[OF s, of ?k] by (simp only: sorted_wrt_map)
  have "set (drop ?k (Chat lb @ [?m])) \<subseteq> set (Chat lb @ [?m])"
    by (rule set_drop_subset)
  with a(2) have 2: "\<forall>m\<in>set (drop ?k (Chat lb @ [?m])). ID m \<in> set (ids @ [NextChatID lb + 1])"
    by auto
  have 3: "\<forall>i\<in>set (ids @ [NextChatID lb + 1]). 1 \<le> i \<and> i \<le> NextChatID lb + 1"
    using a(1,5) by auto
  have 4: "length (drop ?k (Chat lb @ [?m])) \<le> 200" by simp
  show ?thesis unfolding chatInv_def list_all_iff using 1 2 3 4 a(5) by simp
qed

lemma chatRun_inv:
  assumes "chatRun code s0 ids s" "lobbies s0 code = Some lb0" "Chat lb0 = []" "NextChatID lb0 = 0"
  shows "\<exists>lb. lobbies s code = Some lb \<and> chatInv lb ids"
  using assms
proof (induction rule: chatRun.induct)
  case chatRun_start
  then show ?case by (simp add: chatInv_def)
next
  case (chatRun_post ids s post side nm tx now s' lb')
  then obtain lb where lb: "lobbies s code = Some lb" "chatInv lb ids" by blast
  from handleChatPost_NoContent[OF chatRun_post(2)]
  have c: "post" "code \<noteq> []" "tx \<noteq> []" "side = ''R'' \<or> side = ''Y''" by auto
  define m where "m = \<lparr>ID = NextChatID lb + 1, When = now, Side = side,
                 Name = (if nm = [] then ''Joueur'' else nm), Text = take 240 tx\<rparr>"
  from chatRun_post(2) handleChatPost_accept[OF lb(1) c(2,3,4), of nm now] c(1)
  have s': "s' = s\<lparr>lobbies := (lobbies s)(code \<mapsto>
        lb\<lparr>NextChatID := NextChatID lb + 1,
           Chat := drop (length (Chat lb) + 1 - 200) (Chat lb @ [m]),
           UpdatedAt := now\<rparr>)\<rparr>" unfolding m_def by simp
  with chatRun_post(3) have lb': "lb' = lb\<lparr>NextChatID := NextChatID lb + 1,
           Chat := drop (length (Chat lb) + 1 - 200) (Chat lb @ [m]),
           UpdatedAt := now\<rparr>" by simp
  have "ID (last (Chat lb')) = NextChatID lb + 1"
    by (simp add: lb' m_def)
  with chatInv_post[OF lb(2), of now side "if nm = [] then ''Joueur'' else nm" "take 240 tx"]
    chatRun_post(3) lb' show ?case unfolding m_def by simp
next
  case (chatRun_other ids s post code' side nm tx now resp s')
  then obtain lb where lb: "lobbies s code = Some lb" "chatInv lb ids" by blast
  from chatRun_other(2,3) have "lobbies s' code = lobbies s code"
    using handleChatPost_reject[of s post code' side nm tx now resp s']
      handleChatPost_other[of s post code' side nm tx now resp s' code] by auto
  with lb show ?case by simp
next
  case (chatRun_play ids s post code' side c now sid resp s')
  then obtain lb where lb: "lobbies s code = Some lb" "chatInv lb ids" by blast
  from handleOnlinePlay_lobby[OF chatRun_play(2) lb(1)] lb(2) show ?case
    by (auto simp: chatInv_def)
next
  case (chatRun_create ids s rows cols blocks p1 p2 diff code' generated now rnd resp s')
  then obtain lb where lb: "lobbies s code = Some lb" "chatInv lb ids" by blast
  from handleOnlineCreate_lobby[OF chatRun_create(2) lb(1)] lb(2) show ?case by simp
next
  case (chatRun_join ids s code' now resp s')
  then obtain lb where lb: "lobbies s code = Some lb" "chatInv lb ids" by blast
  from handleOnlineJoin_lobby[OF chatRun_join(2) lb(1)] lb(2) show ?case
    by (auto simp: chatInv_def)
next
  case (chatRun_sessions ids s m)
  then show ?case by simp
qed

lemma wrap64_30: "wrap64 30 = 30"
  by (simp add: wrap64_def)

lemma exampleGame_new: "newGame 6 7 3 0 exampleRnd = Some exampleGame"
  by (simp add: newGame_def placeBlocks_def index_def cellAt_def setCell_def exampleRnd_def
      exampleGame_def cellEmpty_def cellBlk_def cellR_def wrap64_30 eval_nat_numeral)

lemma exampleServer_create:
  "handleOnlineCreate \<lparr>sessions = Map.empty, lobbies = Map.empty\<rparr> 6 7 3 [] [] [] ''ABCD'' ''WXYZ'' 0 exampleRnd
     = Some (RedirectWait, exampleServer)"
  by (simp add: handleOnlineCreate_def exampleGame_new exampleServer_def exampleLobby_def Let_def)

lemma feedLoop_filter: "feedLoop ms since out = out @ filter (\<lambda>m. since < ID m) ms"
  by (induction ms arbitrary: out) auto

text \<open>
  Claim C7, amended. Take a lobby that was stored fresh (no message, counter 0) and any
  history of handler calls since, during which the identifiers \<open>ids\<close> were given to its
  accepted messages. A POST to that lobby with empty text or with a side other than "R"
  and "Y" is answered "bad request" and leaves the whole server state as it was. Any
  other post is accepted: the message stored has the first 240 bytes of the text (bytes,
  not characters), its identifier is the counter plus one, greater than every identifier
  given before and than every identifier in the log; the new log is the old log with the
  message appended, cut to its last 200 entries, so it ends with the new message; the
  lobby's game is untouched.
\<close>

theorem handleChatPost_spec:
  assumes "chatRun code s0 ids s" "lobbies s0 code = Some lb0" "Chat lb0 = []" "NextChatID lb0 = 0"
      and "lobbies s code = Some lb" and "code \<noteq> []"
  shows "(text = [] \<or> (side \<noteq> ''R'' \<and> side \<noteq> ''Y'') \<longrightarrow>
            handleChatPost s True code side name text now = (BadRequest, s)) \<and>
         (text \<noteq> [] \<and> (side = ''R'' \<or> side = ''Y'') \<longrightarrow>
            (\<exists>m lb'. handleChatPost s True code side name text now =
                        (NoContent, s\<lparr>lobbies := (lobbies s)(code \<mapsto> lb')\<rparr>) \<and>
               Side m = side \<and> Text m = take 240 text \<and> length (Text m) \<le> 240 \<and>
               ID m = NextChatID lb + 1 \<and> NextChatID lb' = ID m \<and>
               (\<forall>i\<in>set ids. i < ID m) \<and> (\<forall>m'\<in>set (Chat lb). ID m' < ID m) \<and>
               Chat lb' = drop (length (Chat lb @ [m]) - 200) (Chat lb @ [m]) \<and>
               length (Chat lb') \<le> 200 \<and> last (Chat lb') = m \<and> Game lb' = Game lb))"
proof -
  from chatRun_inv[OF assms(1-4)] assms(5) have inv: "chatInv lb ids" by auto
  then have a: "\<forall>i\<in>set ids. 1 \<le> i \<and> i \<le> NextChatID lb"
    "\<forall>m\<in>set (Chat lb). ID m \<in> set ids"
    by (simp_all add: chatInv_def list_all_iff)
  have rej: "text = [] \<or> (side \<noteq> ''R'' \<and> side \<noteq> ''Y'') \<longrightarrow>
            handleChatPost s True code side name text now = (BadRequest, s)"
    by (auto simp: handleChatPost_def)
  have acc: "\<exists>m lb'. handleChatPost s True code side name text now =
                        (NoContent, s\<lparr>lobbies := (lobbies s)(code \<mapsto> lb')\<rparr>) \<and>
               Side m = side \<and> Text m = take 240 text \<and> length (Text m) \<le> 240 \<and>
               ID m = NextChatID lb + 1 \<and> NextChatID lb' = ID m \<and>
               (\<forall>i\<in>set ids. i < ID m) \<and> (\<forall>m'\<in>set (Chat lb). ID m' < ID m) \<and>
               Chat lb' = drop (length (Chat lb @ [m]) - 200) (Chat lb @ [m]) \<and>
               length (Chat lb') \<le> 200 \<and> last (Chat lb') = m \<and> Game lb' = Game lb"
    if t: "text \<noteq> []" "side = ''R'' \<or> side = ''Y''"
  proof -
    let ?m = "\<lparr>ID = NextChatID lb + 1, When = now, Side = side,
                 Name = (if name = [] then ''Joueur'' else name), Text = take 240 text\<rparr>"
    let ?lb = "lb\<lparr>NextChatID := NextChatID lb + 1,
           Chat := drop (length (Chat lb) + 1 - 200) (Chat lb @ [?m]), UpdatedAt := now\<rparr>"
    have 1: "handleChatPost s True code side name text now =
        (NoContent, s\<lparr>lobbies := (lobbies s)(code \<mapsto> ?lb)\<rparr>)"
      using handleChatPost_accept[OF assms(5,6) t] .
    have 2: "\<forall>i\<in>set ids. i < ID ?m" using a(1) by fastforce
    with a(2) have 3: "\<forall>m'\<in>set (Chat lb). ID m' < ID ?m" by blast
    have 4: "last (Chat ?lb) = ?m" by simp
    show ?thesis
      apply (rule exI[of _ ?m], rule exI[of _ ?lb])
      using 1 2 3 4 by simp
  qed
  from rej acc show ?thesis by blast
qed

text \<open>
  Claim C8, amended. For a lobby with such a history and a code that is not empty, the
  feed returns exactly the stored messages whose identifier is greater than \<open>since\<close>, in
  the order of the log, which is the order of increasing identifiers; it is empty when
  no stored identifier exceeds \<open>since\<close> and is the whole log for \<open>since = 0\<close>. For a code
  that is not empty and names no lobby the handler does not return a sequence at all: it
  answers "not found". For the empty code it answers "bad request".
\<close>

theorem handleChatFeed_spec:
  assumes "chatRun code s0 ids s" "lobbies s0 code = Some lb0" "Chat lb0 = []" "NextChatID lb0 = 0"
      and "lobbies s code = Some lb" and "code \<noteq> []"
  shows "(\<exists>out. handleChatFeed s code since = FeedItems out \<and>
            out = filter (\<lambda>m. since < ID m) (Chat lb) \<and> sorted_wrt (<) (map ID out) \<and>
            ((\<forall>m\<in>set (Chat lb). ID m \<le> since) \<longrightarrow> out = []) \<and>
            (since = 0 \<longrightarrow> out = Chat lb)) \<and>
         (\<forall>code'. code' \<noteq> [] \<and> lobbies s code' = None \<longrightarrow>
            handleChatFeed s code' since = FeedNotFound) \<and>
         handleChatFeed s [] since = FeedBadRequest"
proof -
  from chatRun_inv[OF assms(1-4)] assms(5) have inv: "chatInv lb ids" by auto
  then have a: "\<forall>i\<in>set ids. 1 \<le> i \<and> i \<le> NextChatID lb"
    "\<forall>m\<in>set (Chat lb). ID m \<in> set ids" "sorted_wrt (<) (map ID (Chat lb))"
    by (simp_all add: chatInv_def list_all_iff)
  let ?out = "filter (\<lambda>m. since < ID m) (Chat lb)"
  have 1: "handleChatFeed s code since = FeedItems ?out"
    using assms(5,6) by (simp add: handleChatFeed_def feedLoop_filter)
  have 2: "sorted_wrt (<) (map ID ?out)"
    using a(3) sorted_wrt_filter[of "\<lambda>a b. ID a < ID b" "Chat lb"] by (simp add: sorted_wrt_map)
  have 3: "(\<forall>m\<in>set (Chat lb). ID m \<le> since) \<longrightarrow> ?out = []"
    by (auto simp: filter_empty_conv)
  have "\<forall>m\<in>set (Chat lb). 0 < ID m" using a(1,2) by fastforce
  then have 4: "since = 0 \<longrightarrow> ?out = Chat lb" by (auto simp: filter_id_conv)
  have 5: "\<forall>code'. code' \<noteq> [] \<and> lobbies s code' = None \<longrightarrow>
            handleChatFeed s code' since = FeedNotFound"
    by (simp add: handleChatFeed_def)
  have 6: "handleChatFeed s [] since = FeedBadRequest"
    by (simp add: handleChatFeed_def)
  from 1 2 3 4 5 6 show ?thesis by blast
qed

text \<open>
  Claim C8 as stated says that the feed of an absent lobby is the empty sequence; on a
  server without lobbies the handler answers "not found" instead.
\<close>

theorem handleChatFeed_absent_counterexample:
  "handleChatFeed \<lparr>sessions = Map.empty, lobbies = Map.empty\<rparr> ''ABCD'' 0 = FeedNotFound \<and>
   handleChatFeed \<lparr>sessions = Map.empty, lobbies = Map.empty\<rparr> ''ABCD'' 0 \<noteq> FeedItems []"
  by (simp add: handleChatFeed_def)

lemma exampleServer1_lobby:
  "lobbies exampleServer1 ''ABCD'' =
      Some (exampleLobby\<lparr>NextChatID := 1,
         Chat := [\<lparr>ID = 1, When = 5, Side = ''R'', Name = ''Ann'', Text = ''hello''\<rparr>],
         UpdatedAt := 5\<rparr>)"
  by (simp add: exampleServer1_def handleChatPost_def exampleServer_def exampleLobby_def Let_def)

lemma exampleServer2_lobby:
  "lobbies exampleServer2 ''ABCD'' =
      Some (exampleLobby\<lparr>NextChatID := 1,
         Chat := [\<lparr>ID = 1, When = 5, Side = ''R'', Name = ''Ann'', Text = ''hello''\<rparr>],
         HasYellow := True, UpdatedAt := 6\<rparr>)"
  by (simp add: exampleServer2_def handleOnlineJoin_def exampleServer1_lobby exampleLobby_def)

lemma exampleServer2_absent: "lobbies exampleServer2 ''WXYZ'' = None"
  by (simp add: exampleServer2_def handleOnlineJoin_def exampleServer1_lobby exampleLobby_def
      exampleServer1_def handleChatPost_def exampleServer_def Let_def)

text \<open>The example history: Red posts a message, then Yellow joins the lobby.\<close>

lemma exampleServer2_run: "chatRun ''ABCD'' exampleServer [1] exampleServer2"
proof -
  have p: "handleChatPost exampleServer True ''ABCD'' ''R'' ''Ann'' ''hello'' 5 = (NoContent, exampleServer1)"
    by (simp add: exampleServer1_def handleChatPost_def exampleServer_def Let_def)
  from chatRun_post[OF chatRun_start p exampleServer1_lobby]
  have r1: "chatRun ''ABCD'' exampleServer [1] exampleServer1" by simp
  have j: "handleOnlineJoin exampleServer1 ''ABCD'' 6 = (RedirectWait, exampleServer2)"
    by (simp add: exampleServer2_def handleOnlineJoin_def exampleServer1_lobby exampleLobby_def)
  from chatRun_join[OF r1 j] show ?thesis .
qed

theorem handleChatPost_spec_witness:
  "chatRun ''ABCD'' exampleServer [1] exampleServer2 \<and>
   handleChatPost exampleServer2 True ''ABCD'' ''Y'' ''Bob'' [] 7 = (BadRequest, exampleServer2) \<and>
   handleChatPost exampleServer2 True ''ABCD'' ''Z'' ''Bob'' ''hi'' 7 = (BadRequest, exampleServer2) \<and>
   (\<exists>m lb'. handleChatPost exampleServer2 True ''ABCD'' ''Y'' ''Bob'' ''hi'' 7 =
        (NoContent, exampleServer2\<lparr>lobbies := (lobbies exampleServer2)(''ABCD'' \<mapsto> lb')\<rparr>) \<and>
      ID m = 2 \<and> Text m = ''hi'' \<and> last (Chat lb') = m \<and> length (Chat lb') \<le> 200)"
proof -
  have f: "lobbies exampleServer ''ABCD'' = Some exampleLobby" "Chat exampleLobby = []"
    "NextChatID exampleLobby = 0"
    by (simp_all add: exampleServer_def exampleLobby_def)
  have c: "''ABCD'' \<noteq> []" by simp
  note t = handleChatPost_spec[OF exampleServer2_run f exampleServer2_lobby c]
  from t[of "[]" "''Y''" "''Bob''" 7]
  have 1: "handleChatPost exampleServer2 True ''ABCD'' ''Y'' ''Bob'' [] 7 = (BadRequest, exampleServer2)"
    by simp
  from t[of "''hi''" "''Z''" "''Bob''" 7]
  have 2: "handleChatPost exampleServer2 True ''ABCD'' ''Z'' ''Bob'' ''hi'' 7 = (BadRequest, exampleServer2)"
    by simp
  from t[of "''hi''" "''Y''" "''Bob''" 7]
  have 3: "\<exists>m lb'. handleChatPost exampleServer2 True ''ABCD'' ''Y'' ''Bob'' ''hi'' 7 =
        (NoContent, exampleServer2\<lparr>lobbies := (lobbies exampleServer2)(''ABCD'' \<mapsto> lb')\<rparr>) \<and>
      ID m = 2 \<and> Text m = ''hi'' \<and> last (Chat lb') = m \<and> length (Chat lb') \<le> 200"
    by simp blast
  from exampleServer2_run 1 2 3 show ?thesis by blast
qed

lemma utf8Length_replicate: "utf8Length (concat (replicate n [CHR 0xC3, CHR 0xA9])) = n"
  by (induction n) (simp_all add: utf8Length_def)

lemma length_concat_pairs: "length (concat (replicate n [a, b])) = 2 * n"
  by (induction n) simp_all

lemma take_concat_pairs:
  "k \<le> n \<Longrightarrow> take (2 * k) (concat (replicate n [a, b])) = concat (replicate k [a, b])"
proof (induction n arbitrary: k)
  case 0
  then show ?case by simp
next
  case (Suc n)
  show ?case
  proof (cases k)
    case 0
    then show ?thesis by simp
  next
    case (Suc j)
    with Suc.prems have "j \<le> n" by simp
    from Suc.IH[OF this] Suc show ?thesis by simp
  qed
qed

lemma exampleText_cut: "take 240 exampleText = concat (replicate 120 [CHR 0xC3, CHR 0xA9])"
  using take_concat_pairs[of 120 121 "CHR 0xC3" "CHR 0xA9"] by (simp add: exampleText_def)

text \<open>
  Claim C7 as stated says that an accepted text is cut to 240 characters. The text
  \<open>exampleText\<close> has 121 characters in 242 bytes; the message stored for it holds its first
  240 bytes, which are 120 characters, and so is not the text that was posted.
\<close>

theorem handleChatPost_characters_counterexample:
  "utf8Length exampleText = 121 \<and> length exampleText = 242 \<and>
   handleChatPost exampleServer True ''ABCD'' ''R'' ''Ann'' exampleText 5 =
     (NoContent, exampleServer\<lparr>lobbies := (lobbies exampleServer)(''ABCD'' \<mapsto>
        exampleLobby\<lparr>NextChatID := 1,
           Chat := [\<lparr>ID = 1, When = 5, Side = ''R'', Name = ''Ann'', Text = take 240 exampleText\<rparr>],
           UpdatedAt := 5\<rparr>)\<rparr>) \<and>
   take 240 exampleText \<noteq> exampleText \<and>
   length (take 240 exampleText) = 240 \<and> utf8Length (take 240 exampleText) = 120"
proof -
  have 1: "utf8Length exampleText = 121"
    by (simp add: exampleText_def utf8Length_replicate)
  have 2: "length exampleText = 242"
    by (simp add: exampleText_def length_concat_pairs)
  have ne: "exampleText \<noteq> []" using 2 by auto
  have l: "lobbies exampleServer ''ABCD'' = Some exampleLobby" by (simp add: exampleServer_def)
  have c: "''ABCD'' \<noteq> []" by simp
  have 3: "handleChatPost exampleServer True ''ABCD'' ''R'' ''Ann'' exampleText 5 =
     (NoContent, exampleServer\<lparr>lobbies := (lobbies exampleServer)(''ABCD'' \<mapsto>
        exampleLobby\<lparr>NextChatID := 1,
           Chat := [\<lparr>ID = 1, When = 5, Side = ''R'', Name = ''Ann'', Text = take 240 exampleText\<rparr>],
           UpdatedAt := 5\<rparr>)\<rparr>)"
    unfolding handleChatPost_accept[OF l c ne disjI1[OF refl]]
    by (simp add: exampleLobby_def)
  have 4: "length (take 240 exampleText) = 240" using 2 by simp
  have 5: "take 240 exampleText \<noteq> exampleText"
  proof
    assume "take 240 exampleText = exampleText"
    then have "length (take 240 exampleText) = length exampleText" by simp
    with 2 4 show False by simp
  qed
  have 6: "utf8Length (take 240 exampleText) = 120"
    by (simp only: exampleText_cut utf8Length_replicate)
  from 1 2 3 4 5 6 show ?thesis by blast
qed

theorem handleChatFeed_spec_witness:
  "chatRun ''ABCD'' exampleServer [1] exampleServer2 \<and>
   handleChatFeed exampleServer2 ''ABCD'' 0 =
     FeedItems [\<lparr>ID = 1, When = 5, Side = ''R'', Name = ''Ann'', Text = ''hello''\<rparr>] \<and>
   handleChatFeed exampleServer2 ''ABCD'' 1 = FeedItems [] \<and>
   handleChatFeed exampleServer2 ''WXYZ'' 0 = FeedNotFound \<and>
   handleChatFeed exampleServer2 [] 0 = FeedBadRequest"
proof -
  have f: "lobbies exampleServer ''ABCD'' = Some exampleLobby" "Chat exampleLobby = []"
    "NextChatID exampleLobby = 0"
    by (simp_all add: exampleServer_def exampleLobby_def)
  have c: "''ABCD'' \<noteq> []" by simp
  note t = handleChatFeed_spec[OF exampleServer2_run f exampleServer2_lobby c]
  from t[of 0] have 1: "handleChatFeed exampleServer2 ''ABCD'' 0 =
     FeedItems [\<lparr>ID = 1, When = 5, Side = ''R'', Name = ''Ann'', Text = ''hello''\<rparr>]"
    by auto
  from t[of 1] have 2: "handleChatFeed exampleServer2 ''ABCD'' 1 = FeedItems []"
    by auto
  from t[of 0] exampleServer2_absent have 3: "handleChatFeed exampleServer2 ''WXYZ'' 0 = FeedNotFound"
    by auto
  from t[of 0] have 4: "handleChatFeed exampleServer2 [] 0 = FeedBadRequest"
    by auto
  from exampleServer2_run 1 2 3 4 show ?thesis by blast
qed
section \<open>Properties: the winning line\<close>

lemma cellAt_inGrid:
  assumes "rectangular g"
  shows "inGrid (int (length g)) (int (length (g ! 0))) rr cc \<Longrightarrow> cellAt g rr cc = Some (g ! nat rr ! nat cc)"
    and "\<not> inGrid (int (length g)) (int (length (g ! 0))) rr cc \<Longrightarrow> cellAt g rr cc = None"
proof -
  show "inGrid (int (length g)) (int (length (g ! 0))) rr cc \<Longrightarrow> cellAt g rr cc = Some (g ! nat rr ! nat cc)"
    using cellAt_rect[OF assms] by (simp add: inGrid_def)
  show "\<not> inGrid (int (length g)) (int (length (g ! 0))) rr cc \<Longrightarrow> cellAt g rr cc = None"
    using cellAt_rect_None[OF assms, of cc rr] cellAt_Some_range[of g rr cc]
    by (cases "cellAt g rr cc") (auto simp: inGrid_def)
qed

lemma ray_0: "ray r c d 0 = []"
  by (simp add: ray_def)

lemma ray_Suc: "ray r c d (Suc n) = (r, c) # ray (r + fst d) (c + snd d) d n"
proof -
  have "[0..<Suc n] = 0 # map Suc [0..<n]"
    by (simp add: upt_conv_Cons map_Suc_upt del: upt_Suc)
  then show ?thesis
    by (simp add: ray_def algebra_simps comp_def del: upt_Suc)
qed

lemma ray_snoc: "ray r c d (Suc n) = ray r c d n @ [(r + int n * fst d, c + int n * snd d)]"
  by (simp add: ray_def)

lemma toEdge_less:
  "d \<noteq> (0, 0) \<Longrightarrow> inGrid h w rr cc \<Longrightarrow> toEdge h w d (rr + fst d) (cc + snd d) < toEdge h w d rr cc"
  by (cases d) (auto simp: toEdge_def inGrid_def)

lemma extendFwd_total:
  assumes "rectangular g" "d \<noteq> (0, 0)" "h = int (length g)" "w = int (length (g ! 0))"
  shows "\<exists>n. extendFwd g h w p d rr cc line = Some (line @ ray rr cc d n) \<and>
           (\<forall>k<n. cellAt g (rr + int k * fst d) (cc + int k * snd d) = Some p) \<and>
           cellAt g (rr + int n * fst d) (cc + int n * snd d) \<noteq> Some p"
proof (induction "toEdge h w d rr cc" arbitrary: rr cc line rule: less_induct)
  case less
  show ?case
  proof (cases "inGrid h w rr cc \<and> cellAt g rr cc = Some p")
    case False
    then have "extendFwd g h w p d rr cc line = Some line"
      using cellAt_inGrid[OF assms(1), of rr cc] assms(3,4)
      by (subst extendFwd.simps) (auto split: option.splits)
    moreover have "cellAt g rr cc \<noteq> Some p"
      using False cellAt_inGrid(2)[OF assms(1), of rr cc] assms(3,4) by auto
    ultimately show ?thesis by (intro exI[of _ 0]) (simp add: ray_0)
  next
    case True
    then have e: "extendFwd g h w p d rr cc line =
        extendFwd g h w p d (rr + fst d) (cc + snd d) (line @ [(rr, cc)])"
      by (subst extendFwd.simps) simp
    from toEdge_less[OF assms(2), of h w rr cc] True
    have "toEdge h w d (rr + fst d) (cc + snd d) < toEdge h w d rr cc" by simp
    from less(1)[OF this, of "line @ [(rr, cc)]"]
    obtain n where n: "extendFwd g h w p d (rr + fst d) (cc + snd d) (line @ [(rr, cc)]) =
          Some ((line @ [(rr, cc)]) @ ray (rr + fst d) (cc + snd d) d n)"
        "\<forall>k<n. cellAt g (rr + fst d + int k * fst d) (cc + snd d + int k * snd d) = Some p"
        "cellAt g (rr + fst d + int n * fst d) (cc + snd d + int n * snd d) \<noteq> Some p"
      by blast
    have 1: "extendFwd g h w p d rr cc line = Some (line @ ray rr cc d (Suc n))"
      using e n(1) by (simp add: ray_Suc)
    have 2: "\<forall>k<Suc n. cellAt g (rr + int k * fst d) (cc + int k * snd d) = Some p"
    proof (intro allI impI)
      fix k assume "k < Suc n"
      show "cellAt g (rr + int k * fst d) (cc + int k * snd d) = Some p"
      proof (cases k)
        case 0 with True show ?thesis by simp
      next
        case (Suc j)
        with \<open>k < Suc n\<close> n(2) have "cellAt g (rr + fst d + int j * fst d) (cc + snd d + int j * snd d) = Some p"
          by simp
        then show ?thesis using Suc by (simp add: algebra_simps)
      qed
    qed
    have 3: "cellAt g (rr + int (Suc n) * fst d) (cc + int (Suc n) * snd d) \<noteq> Some p"
      using n(3) by (simp add: algebra_simps)
    from 1 2 3 show ?thesis by blast
  qed
qed

lemma extendBwd_total:
  assumes "rectangular g" "d \<noteq> (0, 0)" "h = int (length g)" "w = int (length (g ! 0))"
  shows "\<exists>n. extendBwd g h w p d rr cc line =
             Some (rev (ray rr cc (- fst d, - snd d) n) @ line) \<and>
           (\<forall>k<n. cellAt g (rr - int k * fst d) (cc - int k * snd d) = Some p) \<and>
           cellAt g (rr - int n * fst d) (cc - int n * snd d) \<noteq> Some p"
proof (induction "toEdge h w (- fst d, - snd d) rr cc" arbitrary: rr cc line rule: less_induct)
  case less
  have d': "(- fst d, - snd d) \<noteq> (0, 0)" using assms(2) by (cases d) auto
  show ?case
  proof (cases "inGrid h w rr cc \<and> cellAt g rr cc = Some p")
    case False
    then have "extendBwd g h w p d rr cc line = Some line"
      using cellAt_inGrid[OF assms(1), of rr cc] assms(3,4)
      by (subst extendBwd.simps) (auto split: option.splits)
    moreover have "cellAt g rr cc \<noteq> Some p"
      using False cellAt_inGrid(2)[OF assms(1), of rr cc] assms(3,4) by auto
    ultimately show ?thesis by (intro exI[of _ 0]) (simp add: ray_0)
  next
    case True
    then have e: "extendBwd g h w p d rr cc line =
        extendBwd g h w p d (rr - fst d) (cc - snd d) ((rr, cc) # line)"
      by (subst extendBwd.simps) simp
    from toEdge_less[OF d', of h w rr cc] True
    have "toEdge h w (- fst d, - snd d) (rr - fst d) (cc - snd d) < toEdge h w (- fst d, - snd d) rr cc"
      by simp
    from less(1)[OF this, of "(rr, cc) # line"]
    obtain n where n: "extendBwd g h w p d (rr - fst d) (cc - snd d) ((rr, cc) # line) =
          Some (rev (ray (rr - fst d) (cc - snd d) (- fst d, - snd d) n) @ (rr, cc) # line)"
        "\<forall>k<n. cellAt g (rr - fst d - int k * fst d) (cc - snd d - int k * snd d) = Some p"
        "cellAt g (rr - fst d - int n * fst d) (cc - snd d - int n * snd d) \<noteq> Some p"
      by blast
    have 1: "extendBwd g h w p d rr cc line =
        Some (rev (ray rr cc (- fst d, - snd d) (Suc n)) @ line)"
      using e n(1) by (simp add: ray_Suc)
    have 2: "\<forall>k<Suc n. cellAt g (rr - int k * fst d) (cc - int k * snd d) = Some p"
    proof (intro allI impI)
      fix k assume "k < Suc n"
      show "cellAt g (rr - int k * fst d) (cc - int k * snd d) = Some p"
      proof (cases k)
        case 0 with True show ?thesis by simp
      next
        case (Suc j)
        with \<open>k < Suc n\<close> n(2) have "cellAt g (rr - fst d - int j * fst d) (cc - snd d - int j * snd d) = Some p"
          by simp
        then show ?thesis using Suc by (simp add: algebra_simps)
      qed
    qed
    have 3: "cellAt g (rr - int (Suc n) * fst d) (cc - int (Suc n) * snd d) \<noteq> Some p"
      using n(3) by (simp add: algebra_simps)
    from 1 2 3 show ?thesis by blast
  qed
qed

lemma ray_append:
  "ray r c d (m + n) = ray r c d m @ ray (r + int m * fst d) (c + int m * snd d) d n"
proof (induction m arbitrary: r c)
  case 0
  then show ?case by (simp add: ray_0)
next
  case (Suc m)
  show ?case using Suc[of "r + fst d" "c + snd d"]
    by (simp add: ray_Suc algebra_simps)
qed

lemma rev_ray_neg:
  "rev (ray (r - fst d) (c - snd d) (- fst d, - snd d) b) =
   ray (r - int b * fst d) (c - int b * snd d) d b"
proof (induction b)
  case 0
  then show ?case by (simp add: ray_0)
next
  case (Suc b)
  have "rev (ray (r - fst d) (c - snd d) (- fst d, - snd d) (Suc b)) =
      (r - fst d - int b * fst d, c - snd d - int b * snd d) #
        rev (ray (r - fst d) (c - snd d) (- fst d, - snd d) b)"
    by (simp add: ray_snoc)
  also have "\<dots> = (r - int (Suc b) * fst d, c - int (Suc b) * snd d) #
        ray (r - int (Suc b) * fst d + fst d) (c - int (Suc b) * snd d + snd d) d b"
    using Suc by (simp add: algebra_simps)
  also have "\<dots> = ray (r - int (Suc b) * fst d) (c - int (Suc b) * snd d) d (Suc b)"
    by (simp only: ray_Suc)
  finally show ?case .
qed

lemma length_ray: "length (ray r c d n) = n"
  by (simp add: ray_def)

lemma lineThrough_isRun:
  assumes "rectangular g" "d \<noteq> (0, 0)" "h = int (length g)" "w = int (length (g ! 0))"
  shows "\<exists>line. lineThrough g h w r c p d = Some line \<and> isRun g p r c d line"
proof -
  from extendFwd_total[OF assms, of p "r + fst d" "c + snd d" "[(r, c)]"]
  obtain f where f: "extendFwd g h w p d (r + fst d) (c + snd d) [(r, c)] =
        Some ([(r, c)] @ ray (r + fst d) (c + snd d) d f)"
      "\<forall>k<f. cellAt g (r + fst d + int k * fst d) (c + snd d + int k * snd d) = Some p"
      "cellAt g (r + fst d + int f * fst d) (c + snd d + int f * snd d) \<noteq> Some p"
    by blast
  from extendBwd_total[OF assms, of p "r - fst d" "c - snd d" "[(r, c)] @ ray (r + fst d) (c + snd d) d f"]
  obtain b where b: "extendBwd g h w p d (r - fst d) (c - snd d) ([(r, c)] @ ray (r + fst d) (c + snd d) d f) =
        Some (rev (ray (r - fst d) (c - snd d) (- fst d, - snd d) b) @ [(r, c)] @ ray (r + fst d) (c + snd d) d f)"
      "\<forall>k<b. cellAt g (r - fst d - int k * fst d) (c - snd d - int k * snd d) = Some p"
      "cellAt g (r - fst d - int b * fst d) (c - snd d - int b * snd d) \<noteq> Some p"
    by blast
  let ?line = "ray (r - int b * fst d) (c - int b * snd d) d (b + 1 + f)"
  have "ray (r - int b * fst d) (c - int b * snd d) d (b + (Suc f)) =
      ray (r - int b * fst d) (c - int b * snd d) d b @ ray r c d (Suc f)"
    by (simp only: ray_append) simp
  then have eq: "?line = rev (ray (r - fst d) (c - snd d) (- fst d, - snd d) b) @ [(r, c)] @
      ray (r + fst d) (c + snd d) d f"
    by (simp add: rev_ray_neg ray_Suc)
  have 1: "lineThrough g h w r c p d = Some ?line"
    using f(1) b(1) eq by (simp add: lineThrough_def)
  have 2: "\<forall>k<f. cellAt g (r + (int k + 1) * fst d) (c + (int k + 1) * snd d) = Some p"
    using f(2) by (simp add: algebra_simps)
  have 3: "cellAt g (r + (int f + 1) * fst d) (c + (int f + 1) * snd d) \<noteq> Some p"
    using f(3) by (simp add: algebra_simps)
  have 4: "\<forall>k<b. cellAt g (r - (int k + 1) * fst d) (c - (int k + 1) * snd d) = Some p"
    using b(2) by (simp add: algebra_simps)
  have 5: "cellAt g (r - (int b + 1) * fst d) (c - (int b + 1) * snd d) \<noteq> Some p"
    using b(3) by (simp add: algebra_simps)
  from 1 2 3 4 5 show ?thesis unfolding isRun_def by blast
qed

lemma isRun_unique:
  assumes "isRun g p r c d l" "isRun g p r c d l'"
  shows "l = l'"
proof -
  from assms(1) obtain b f where 1: "l = ray (r - int b * fst d) (c - int b * snd d) d (b + 1 + f)"
    "\<forall>k<f. cellAt g (r + (int k + 1) * fst d) (c + (int k + 1) * snd d) = Some p"
    "cellAt g (r + (int f + 1) * fst d) (c + (int f + 1) * snd d) \<noteq> Some p"
    "\<forall>k<b. cellAt g (r - (int k + 1) * fst d) (c - (int k + 1) * snd d) = Some p"
    "cellAt g (r - (int b + 1) * fst d) (c - (int b + 1) * snd d) \<noteq> Some p"
    unfolding isRun_def by blast
  from assms(2) obtain b' f' where 2: "l' = ray (r - int b' * fst d) (c - int b' * snd d) d (b' + 1 + f')"
    "\<forall>k<f'. cellAt g (r + (int k + 1) * fst d) (c + (int k + 1) * snd d) = Some p"
    "cellAt g (r + (int f' + 1) * fst d) (c + (int f' + 1) * snd d) \<noteq> Some p"
    "\<forall>k<b'. cellAt g (r - (int k + 1) * fst d) (c - (int k + 1) * snd d) = Some p"
    "cellAt g (r - (int b' + 1) * fst d) (c - (int b' + 1) * snd d) \<noteq> Some p"
    unfolding isRun_def by blast
  have "f = f'"
  proof (rule ccontr)
    assume "f \<noteq> f'"
    then consider "f < f'" | "f' < f" by linarith
    then show False
    proof cases
      case 1 with \<open>\<forall>k<f'. _\<close> \<open>cellAt g (r + (int f + 1) * fst d) _ \<noteq> Some p\<close> show False by blast
    next
      case 2 with \<open>\<forall>k<f. _\<close> \<open>cellAt g (r + (int f' + 1) * fst d) _ \<noteq> Some p\<close> show False by blast
    qed
  qed
  moreover have "b = b'"
  proof (rule ccontr)
    assume "b \<noteq> b'"
    then consider "b < b'" | "b' < b" by linarith
    then show False
    proof cases
      case 1 with \<open>\<forall>k<b'. _\<close> \<open>cellAt g (r - (int b + 1) * fst d) _ \<noteq> Some p\<close> show False by blast
    next
      case 2 with \<open>\<forall>k<b. _\<close> \<open>cellAt g (r - (int b' + 1) * fst d) _ \<noteq> Some p\<close> show False by blast
    qed
  qed
  ultimately show ?thesis using 1(1) 2(1) by simp
qed

lemma firstLine_spec:
  assumes "rectangular g" "h = int (length g)" "w = int (length (g ! 0))" "(0, 0) \<notin> set ds"
  shows "\<exists>line. firstLine g h w r c p ds = Some line \<and>
           (line = [] \<longrightarrow> (\<forall>d\<in>set ds. \<forall>l. isRun g p r c d l \<longrightarrow> length l < 4)) \<and>
           (line \<noteq> [] \<longrightarrow> 4 \<le> length line \<and>
              (\<exists>ds1 d ds2. ds = ds1 @ d # ds2 \<and> isRun g p r c d line \<and>
                 (\<forall>d'\<in>set ds1. \<forall>l. isRun g p r c d' l \<longrightarrow> length l < 4)))"
  using assms(4)
proof (induction ds)
  case Nil
  then show ?case by simp
next
  case (Cons d ds)
  then have d: "d \<noteq> (0, 0)" by auto
  from lineThrough_isRun[OF assms(1) d assms(2,3), of r c p]
  obtain l0 where l0: "lineThrough g h w r c p d = Some l0" "isRun g p r c d l0" by blast
  show ?case
  proof (cases "4 \<le> length l0")
    case True
    then have "firstLine g h w r c p (d # ds) = Some l0" using l0(1) by simp
    moreover have "l0 \<noteq> []" using True by auto
    moreover have "\<exists>ds1 d' ds2. d # ds = ds1 @ d' # ds2 \<and> isRun g p r c d' l0 \<and>
                 (\<forall>d''\<in>set ds1. \<forall>l. isRun g p r c d'' l \<longrightarrow> length l < 4)"
      using l0(2) by (intro exI[of _ "[]"] exI[of _ d] exI[of _ ds]) simp
    ultimately show ?thesis using True by blast
  next
    case False
    then have short: "\<forall>l. isRun g p r c d l \<longrightarrow> length l < 4"
      using isRun_unique[OF l0(2)] by auto
    have "(0, 0) \<notin> set ds" using Cons.prems by simp
    from Cons.IH[OF this] obtain line where line: "firstLine g h w r c p ds = Some line"
      "line = [] \<longrightarrow> (\<forall>d\<in>set ds. \<forall>l. isRun g p r c d l \<longrightarrow> length l < 4)"
      "line \<noteq> [] \<longrightarrow> 4 \<le> length line \<and>
              (\<exists>ds1 d ds2. ds = ds1 @ d # ds2 \<and> isRun g p r c d line \<and>
                 (\<forall>d'\<in>set ds1. \<forall>l. isRun g p r c d' l \<longrightarrow> length l < 4))"
      by blast
    have 1: "firstLine g h w r c p (d # ds) = Some line" using False l0(1) line(1) by simp
    have 2: "line = [] \<longrightarrow> (\<forall>d'\<in>set (d # ds). \<forall>l. isRun g p r c d' l \<longrightarrow> length l < 4)"
      using short line(2) by simp
    have 3: "line \<noteq> [] \<longrightarrow> 4 \<le> length line \<and>
              (\<exists>ds1 d' ds2. d # ds = ds1 @ d' # ds2 \<and> isRun g p r c d' line \<and>
                 (\<forall>d''\<in>set ds1. \<forall>l. isRun g p r c d'' l \<longrightarrow> length l < 4))"
    proof
      assume "line \<noteq> []"
      with line(3) obtain ds1 d' ds2 where x: "4 \<le> length line" "ds = ds1 @ d' # ds2"
        "isRun g p r c d' line" "\<forall>d''\<in>set ds1. \<forall>l. isRun g p r c d'' l \<longrightarrow> length l < 4"
        by blast
      have "d # ds = (d # ds1) @ d' # ds2" using x(2) by simp
      moreover have "\<forall>d''\<in>set (d # ds1). \<forall>l. isRun g p r c d'' l \<longrightarrow> length l < 4"
        using short x(4) by simp
      ultimately show "4 \<le> length line \<and>
              (\<exists>ds1 d' ds2. d # ds = ds1 @ d' # ds2 \<and> isRun g p r c d' line \<and>
                 (\<forall>d''\<in>set ds1. \<forall>l. isRun g p r c d'' l \<longrightarrow> length l < 4))"
        using x(1,3) by blast
    qed
    from 1 2 3 show ?thesis by blast
  qed
qed

lemma isRun_four:
  assumes "isRun g p r c d l" "j < 4"
    and "r = r0 + int j * fst d" "c = c0 + int j * snd d"
    and "\<forall>k<4. cellAt g (r0 + int k * fst d) (c0 + int k * snd d) = Some p"
  shows "4 \<le> length l"
proof -
  from assms(1) obtain b f where 1: "l = ray (r - int b * fst d) (c - int b * snd d) d (b + 1 + f)"
    "cellAt g (r + (int f + 1) * fst d) (c + (int f + 1) * snd d) \<noteq> Some p"
    "cellAt g (r - (int b + 1) * fst d) (c - (int b + 1) * snd d) \<noteq> Some p"
    unfolding isRun_def by blast
  have "3 - j \<le> f"
  proof (rule ccontr)
    assume "\<not> 3 - j \<le> f"
    then have lt: "j + f + 1 < 4" by simp
    have "r + (int f + 1) * fst d = r0 + int (j + f + 1) * fst d"
      "c + (int f + 1) * snd d = c0 + int (j + f + 1) * snd d"
      using assms(3,4) by (simp_all add: algebra_simps)
    with assms(5) lt 1(2) show False by metis
  qed
  moreover have "j \<le> b"
  proof (rule ccontr)
    assume "\<not> j \<le> b"
    then have lt: "b < j" by simp
    then have "j - (b + 1) < 4" using assms(2) by simp
    moreover have "r - (int b + 1) * fst d = r0 + int (j - (b + 1)) * fst d"
      "c - (int b + 1) * snd d = c0 + int (j - (b + 1)) * snd d"
      using assms(3,4) lt by (simp_all add: algebra_simps)
    ultimately show False using assms(5) 1(3) by metis
  qed
  ultimately show ?thesis using 1(1) assms(2) by (simp add: length_ray)
qed

lemma winningLine_cases:
  assumes "rectangular g" "g \<noteq> []"
  shows "\<exists>line. winningLine g r c p = Some line \<and>
           (line = [] \<longrightarrow> (\<forall>d\<in>set dirs. \<forall>l. isRun g p r c d l \<longrightarrow> length l < 4)) \<and>
           (line \<noteq> [] \<longrightarrow> 4 \<le> length line \<and>
              (\<exists>ds1 d ds2. dirs = ds1 @ d # ds2 \<and> isRun g p r c d line \<and>
                 (\<forall>d'\<in>set ds1. \<forall>l. isRun g p r c d' l \<longrightarrow> length l < 4)))"
proof -
  have z: "(0, 0) \<notin> set dirs" by (simp add: dirs_def)
  have "winningLine g r c p = firstLine g (int (length g)) (int (length (g ! 0))) r c p dirs"
    using assms(2) by (simp add: winningLine_def index_def)
  with firstLine_spec[OF assms(1) refl refl z, of r c p] show ?thesis by simp
qed

lemma winningLine_iff:
  assumes "rectangular g" "g \<noteq> []" "winningLine g r c p = Some line"
  shows "4 \<le> length line \<longleftrightarrow> (\<exists>d\<in>set dirs. \<exists>l. isRun g p r c d l \<and> 4 \<le> length l)"
proof -
  from winningLine_cases[OF assms(1,2), of r c p] assms(3)
  have a: "line = [] \<longrightarrow> (\<forall>d\<in>set dirs. \<forall>l. isRun g p r c d l \<longrightarrow> length l < 4)"
    and b: "line \<noteq> [] \<longrightarrow> 4 \<le> length line \<and>
              (\<exists>ds1 d ds2. dirs = ds1 @ d # ds2 \<and> isRun g p r c d line \<and>
                 (\<forall>d'\<in>set ds1. \<forall>l. isRun g p r c d' l \<longrightarrow> length l < 4))"
    by auto
  show ?thesis
  proof
    assume "4 \<le> length line"
    then have "line \<noteq> []" by auto
    with b obtain ds1 d ds2 where "dirs = ds1 @ d # ds2" "isRun g p r c d line" by blast
    then have "d \<in> set dirs" by (metis in_set_conv_decomp)
    with \<open>isRun g p r c d line\<close> \<open>4 \<le> length line\<close> show "\<exists>d\<in>set dirs. \<exists>l. isRun g p r c d l \<and> 4 \<le> length l"
      by blast
  next
    assume "\<exists>d\<in>set dirs. \<exists>l. isRun g p r c d l \<and> 4 \<le> length l"
    with a have "line \<noteq> []" by fastforce
    with b show "4 \<le> length line" by simp
  qed
qed

lemma setCell_Some:
  assumes "cellAt g r c = Some v0"
  shows "\<exists>g'. setCell g r c v = Some g' \<and> length g' = length g \<and>
           (\<forall>i. length (g' ! i) = length (g ! i)) \<and>
           (\<forall>r' c'. cellAt g' r' c' = (if r' = r \<and> c' = c then Some v else cellAt g r' c'))"
proof -
  from assms have rg: "0 \<le> r" "r < int (length g)" "0 \<le> c" "c < int (length (g ! nat r))"
    by (auto simp: cellAt_def index_def split: if_splits)
  let ?g = "g[nat r := (g ! nat r)[nat c := v]]"
  have 1: "setCell g r c v = Some ?g" using rg by (simp add: setCell_def index_def)
  have 2: "length (?g ! i) = length (g ! i)" for i
    by (cases "i = nat r") (use rg in \<open>auto simp: nth_list_update\<close>)
  have 3: "cellAt ?g r' c' = (if r' = r \<and> c' = c then Some v else cellAt g r' c')" for r' c'
  proof (cases "0 \<le> r' \<and> r' < int (length g)")
    case False
    then show ?thesis using rg by (auto simp: cellAt_def index_def)
  next
    case True
    show ?thesis
    proof (cases "r' = r")
      case False
      with True rg have "nat r' \<noteq> nat r" by auto
      then show ?thesis using True False by (simp add: cellAt_def index_def)
    next
      case r: True
      show ?thesis
      proof (cases "c' = c")
        case True
        with r rg show ?thesis by (simp add: cellAt_def index_def)
      next
        case False
        then have "0 \<le> c' \<Longrightarrow> nat c' \<noteq> nat c" using rg by auto
        then show ?thesis using r rg False by (auto simp: cellAt_def index_def)
      qed
    qed
  qed
  from 1 2 3 show ?thesis by (intro exI[of _ ?g]) simp
qed

lemma setCell_rect:
  assumes "setCell g r c v = Some g'" "rectangular g"
  shows "rectangular g' \<and> length g' = length g \<and> length (g' ! 0) = length (g ! 0) \<and> (g' = [] \<longleftrightarrow> g = [])"
proof -
  from assms(1) have rg: "0 \<le> r" "r < int (length g)" "0 \<le> c" "c < int (length (g ! nat r))"
    and g': "g' = g[nat r := (g ! nat r)[nat c := v]]"
    by (auto simp: setCell_def index_def split: if_splits)
  have len: "length (g' ! i) = length (g ! i)" for i
    by (cases "i = nat r") (use rg g' in \<open>auto simp: nth_list_update\<close>)
  have "length g' = length g" using g' by simp
  moreover have "rectangular g'"
    unfolding rectangular_def list_all_length
  proof (intro allI impI)
    fix i assume i: "i < length g'"
    then have "0 < length g'" by auto
    then have "hd g' = g' ! 0" by (simp add: hd_conv_nth)
    moreover have "length (g ! i) = length (g ! 0)"
      using rectangular_length[OF assms(2), of "int i"] i \<open>length g' = length g\<close> by simp
    ultimately show "length (g' ! i) = length (hd g')" using len by simp
  qed
  ultimately show ?thesis using len by auto
qed

lemma markWinning_spec:
  assumes "\<forall>rc\<in>set cells. cellAt ws (fst rc) (snd rc) \<noteq> None"
  shows "\<exists>ws'. markWinning ws cells = Some ws' \<and>
           (\<forall>r c. cellAt ws' r c =
              (case cellAt ws r c of None \<Rightarrow> None | Some x \<Rightarrow> Some (x \<or> (r, c) \<in> set cells)))"
  using assms
proof (induction cells arbitrary: ws)
  case Nil
  then show ?case by (auto split: option.splits)
next
  case (Cons rc cells)
  then obtain x where x: "cellAt ws (fst rc) (snd rc) = Some x" by auto
  from setCell_Some[OF x, of True] obtain ws1 where ws1: "setCell ws (fst rc) (snd rc) True = Some ws1"
    "\<forall>r' c'. cellAt ws1 r' c' = (if r' = fst rc \<and> c' = snd rc then Some True else cellAt ws r' c')"
    by blast
  have "\<forall>rc'\<in>set cells. cellAt ws1 (fst rc') (snd rc') \<noteq> None"
    using Cons.prems ws1(2) by auto
  from Cons.IH[OF this] obtain ws' where ws': "markWinning ws1 cells = Some ws'"
    "\<forall>r c. cellAt ws' r c =
              (case cellAt ws1 r c of None \<Rightarrow> None | Some x \<Rightarrow> Some (x \<or> (r, c) \<in> set cells))"
    by blast
  have "markWinning ws (rc # cells) = Some ws'" using ws1(1) ws'(1) by simp
  moreover have "cellAt ws' r c =
      (case cellAt ws r c of None \<Rightarrow> None | Some x \<Rightarrow> Some (x \<or> (r, c) \<in> set (rc # cells)))" for r c
    using ws'(2) ws1(2) x by (cases rc) (auto split: option.splits)
  ultimately show ?case by blast
qed

lemma distinct_ray: "d \<noteq> (0, 0) \<Longrightarrow> distinct (ray r c d n)"
  by (cases d) (auto simp: ray_def distinct_map inj_on_def)

lemma isRun_cells:
  assumes "isRun g p r c d line" "cellAt g r c = Some p"
  shows "\<forall>rc\<in>set line. cellAt g (fst rc) (snd rc) = Some p"
proof
  fix rc assume "rc \<in> set line"
  from assms(1) obtain b f where 1: "line = ray (r - int b * fst d) (c - int b * snd d) d (b + 1 + f)"
    "\<forall>k<f. cellAt g (r + (int k + 1) * fst d) (c + (int k + 1) * snd d) = Some p"
    "\<forall>k<b. cellAt g (r - (int k + 1) * fst d) (c - (int k + 1) * snd d) = Some p"
    unfolding isRun_def by blast
  from \<open>rc \<in> set line\<close> 1(1)
  have "rc \<in> (\<lambda>k. (r - int b * fst d + int k * fst d, c - int b * snd d + int k * snd d)) ` {0..<b + 1 + f}"
    by (simp only: ray_def set_map set_upt)
  then obtain k where k: "k < b + 1 + f"
    "rc = (r - int b * fst d + int k * fst d, c - int b * snd d + int k * snd d)"
    by auto
  consider "k < b" | "k = b" | "b < k" by linarith
  then show "cellAt g (fst rc) (snd rc) = Some p"
  proof cases
    case 1
    then have "b - k - 1 < b" by simp
    moreover have "int (b - k - 1) + 1 = int b - int k" using 1 by simp
    ultimately have "cellAt g (r - (int b - int k) * fst d) (c - (int b - int k) * snd d) = Some p"
      using \<open>\<forall>k<b. _\<close> by metis
    then show ?thesis using k(2) by (simp add: algebra_simps)
  next
    case 2
    then show ?thesis using k(2) assms(2) by simp
  next
    case 3
    then have "k - b - 1 < f" using k(1) by simp
    moreover have "int (k - b - 1) + 1 = int k - int b" using 3 by simp
    ultimately have "cellAt g (r + (int k - int b) * fst d) (c + (int k - int b) * snd d) = Some p"
      using \<open>\<forall>k<f. _\<close> by metis
    then show ?thesis using k(2) by (simp add: algebra_simps)
  qed
qed

lemma isRun_distinct:
  assumes "isRun g p r c d line" "d \<noteq> (0, 0)"
  shows "distinct line"
  using assms distinct_ray[OF assms(2)] unfolding isRun_def by auto

lemma wfGame_flag:
  assumes "wfGame G" "cellAt (Grid G) r c = Some v"
  shows "cellAt (Winning G) r c \<noteq> None"
proof -
  from assms(1) have g: "rectangular (Grid G)" and w: "rectangular (Winning G)"
    and l: "length (Winning G) = length (Grid G)" "length (Winning G ! 0) = length (Grid G ! 0)"
    by (simp_all add: wfGame_def)
  have "inGrid (int (length (Grid G))) (int (length (Grid G ! 0))) r c"
    using cellAt_inGrid(2)[OF g, of r c] assms(2) by auto
  then show ?thesis using cellAt_inGrid(1)[OF w, of r c] l by simp
qed

lemma isDraw_wf: "g \<noteq> [] \<Longrightarrow> isDraw g = Some (noEmpty (g ! 0))"
  by (simp add: isDraw_def index_def)

lemma checkResult_total:
  assumes "wfGame G" "cellAt (Grid G) r c = Some p"
  shows "\<exists>line. winningLine (Grid G) r c p = Some line \<and>
     (if 4 \<le> length line then
        (\<exists>ws. markWinning (Winning G) (take 4 line) = Some ws \<and>
           (\<forall>r' c'. cellAt ws r' c' =
              (case cellAt (Winning G) r' c' of None \<Rightarrow> None
               | Some x \<Rightarrow> Some (x \<or> (r', c') \<in> set (take 4 line)))) \<and>
           checkResult G r c p = Some (True,
             (if p = cellR then G\<lparr>Winning := ws, GameOver := True, ScoresR := ScoresR G + 1\<rparr>
              else G\<lparr>Winning := ws, GameOver := True, ScoresY := ScoresY G + 1\<rparr>)\<lparr>Message := []\<rparr>))
      else checkResult G r c p =
             Some (if noEmpty (Grid G ! 0) then (True, G\<lparr>GameOver := True, Message := drawMessage\<rparr>)
                   else (False, G)))"
proof -
  from assms(1) have g: "rectangular (Grid G)" "Grid G \<noteq> []" by (simp_all add: wfGame_def)
  from winningLine_cases[OF g, of r c p] obtain line where line:
    "winningLine (Grid G) r c p = Some line"
    "line \<noteq> [] \<longrightarrow> 4 \<le> length line \<and>
       (\<exists>ds1 d ds2. dirs = ds1 @ d # ds2 \<and> isRun (Grid G) p r c d line \<and>
          (\<forall>d'\<in>set ds1. \<forall>l. isRun (Grid G) p r c d' l \<longrightarrow> length l < 4))"
    by blast
  show ?thesis
  proof (cases "4 \<le> length line")
    case False
    then show ?thesis using line(1) isDraw_wf[OF g(2)]
      by (auto simp: checkResult_def)
  next
    case True
    then have "line \<noteq> []" by auto
    with line(2) obtain d where d: "isRun (Grid G) p r c d line" by blast
    have "\<forall>rc\<in>set (take 4 line). cellAt (Winning G) (fst rc) (snd rc) \<noteq> None"
      using isRun_cells[OF d assms(2)] wfGame_flag[OF assms(1)] by (meson in_set_takeD)
    from markWinning_spec[OF this] obtain ws where ws: "markWinning (Winning G) (take 4 line) = Some ws"
      "\<forall>r' c'. cellAt ws r' c' =
              (case cellAt (Winning G) r' c' of None \<Rightarrow> None
               | Some x \<Rightarrow> Some (x \<or> (r', c') \<in> set (take 4 line)))"
      by blast
    have "checkResult G r c p = Some (True,
             (if p = cellR then G\<lparr>Winning := ws, GameOver := True, ScoresR := ScoresR G + 1\<rparr>
              else G\<lparr>Winning := ws, GameOver := True, ScoresY := ScoresY G + 1\<rparr>)\<lparr>Message := []\<rparr>)"
      using True line(1) ws(1) by (simp add: checkResult_def)
    with ws True line(1) show ?thesis by auto
  qed
qed

text \<open>
  Claim C6, amended. In a well-formed game whose cell \<open>(r, c)\<close> holds the piece \<open>p\<close> just
  placed, \<^verbatim>\<open>winningLine\<close> and \<^verbatim>\<open>checkResult\<close> both return, and:
  the line has at least 4 cells exactly when the run of \<open>p\<close> through \<open>(r, c)\<close> along one of
  the four axes has at least 4 cells; it is then the whole run along the first such axis
  in the order horizontal, vertical, diagonal, anti-diagonal, listed from one end to the
  other (not the longest run over the four axes); \<^verbatim>\<open>checkResult\<close> then declares the win
  (game over, one point for the player) and sets \<open>Winning\<close> at the first four cells of the
  line, four different cells, and nowhere else. When no axis has such a run the line is
  empty, nothing is marked and no point is given. Four cells in a row along an axis that
  all hold \<open>p\<close> are detected from any of the four.
\<close>

theorem winningLine_spec:
  assumes "wfGame G" and "cellAt (Grid G) r c = Some p"
  shows "\<exists>line b G'. winningLine (Grid G) r c p = Some line \<and> checkResult G r c p = Some (b, G') \<and>
     (4 \<le> length line \<longleftrightarrow> (\<exists>d\<in>set dirs. \<exists>l. isRun (Grid G) p r c d l \<and> 4 \<le> length l)) \<and>
     (4 \<le> length line \<longrightarrow>
        (\<exists>ds1 d ds2. dirs = ds1 @ d # ds2 \<and> isRun (Grid G) p r c d line \<and>
           (\<forall>d'\<in>set ds1. \<forall>l. isRun (Grid G) p r c d' l \<longrightarrow> length l < 4)) \<and>
        b \<and> GameOver G' \<and> Message G' = [] \<and>
        ScoresR G' + ScoresY G' = ScoresR G + ScoresY G + 1 \<and>
        length (take 4 line) = 4 \<and> distinct (take 4 line) \<and>
        (\<forall>r' c'. cellAt (Winning G') r' c' =
           (case cellAt (Winning G) r' c' of None \<Rightarrow> None
            | Some x \<Rightarrow> Some (x \<or> (r', c') \<in> set (take 4 line))))) \<and>
     (length line < 4 \<longrightarrow>
        line = [] \<and> Winning G' = Winning G \<and> ScoresR G' = ScoresR G \<and> ScoresY G' = ScoresY G) \<and>
     (\<forall>d\<in>set dirs. \<forall>r0 c0 j. j < 4 \<and> r = r0 + int j * fst d \<and> c = c0 + int j * snd d \<and>
         (\<forall>k<4. cellAt (Grid G) (r0 + int k * fst d) (c0 + int k * snd d) = Some p)
         \<longrightarrow> 4 \<le> length line)"
proof -
  from assms(1) have g: "rectangular (Grid G)" "Grid G \<noteq> []" by (simp_all add: wfGame_def)
  from checkResult_total[OF assms] obtain line where line:
    "winningLine (Grid G) r c p = Some line"
    "if 4 \<le> length line then
        (\<exists>ws. markWinning (Winning G) (take 4 line) = Some ws \<and>
           (\<forall>r' c'. cellAt ws r' c' =
              (case cellAt (Winning G) r' c' of None \<Rightarrow> None
               | Some x \<Rightarrow> Some (x \<or> (r', c') \<in> set (take 4 line)))) \<and>
           checkResult G r c p = Some (True,
             (if p = cellR then G\<lparr>Winning := ws, GameOver := True, ScoresR := ScoresR G + 1\<rparr>
              else G\<lparr>Winning := ws, GameOver := True, ScoresY := ScoresY G + 1\<rparr>)\<lparr>Message := []\<rparr>))
      else checkResult G r c p =
             Some (if noEmpty (Grid G ! 0) then (True, G\<lparr>GameOver := True, Message := drawMessage\<rparr>)
                   else (False, G))"
    by blast
  from winningLine_cases[OF g, of r c p] line(1)
  have cases: "line \<noteq> [] \<longrightarrow> 4 \<le> length line \<and>
              (\<exists>ds1 d ds2. dirs = ds1 @ d # ds2 \<and> isRun (Grid G) p r c d line \<and>
                 (\<forall>d'\<in>set ds1. \<forall>l. isRun (Grid G) p r c d' l \<longrightarrow> length l < 4))"
    by simp
  note iff = winningLine_iff[OF g line(1)]
  have four: "\<forall>d\<in>set dirs. \<forall>r0 c0 j. j < 4 \<and> r = r0 + int j * fst d \<and> c = c0 + int j * snd d \<and>
         (\<forall>k<4. cellAt (Grid G) (r0 + int k * fst d) (c0 + int k * snd d) = Some p)
         \<longrightarrow> 4 \<le> length line"
  proof (intro ballI allI impI)
    fix d r0 c0 j
    assume d: "d \<in> set dirs" and a: "j < 4 \<and> r = r0 + int j * fst d \<and> c = c0 + int j * snd d \<and>
         (\<forall>k<4. cellAt (Grid G) (r0 + int k * fst d) (c0 + int k * snd d) = Some p)"
    from d have "d \<noteq> (0, 0)" by (auto simp: dirs_def)
    from lineThrough_isRun[OF g(1) this refl refl, of r c p] obtain l where l: "isRun (Grid G) p r c d l"
      by blast
    from isRun_four[OF l, of j r0 c0] a have "4 \<le> length l" by blast
    with l d iff show "4 \<le> length line" by blast
  qed
  show ?thesis
  proof (cases "4 \<le> length line")
    case True
    with line(2) obtain ws where ws: "markWinning (Winning G) (take 4 line) = Some ws"
      "\<forall>r' c'. cellAt ws r' c' =
              (case cellAt (Winning G) r' c' of None \<Rightarrow> None
               | Some x \<Rightarrow> Some (x \<or> (r', c') \<in> set (take 4 line)))"
      "checkResult G r c p = Some (True,
             (if p = cellR then G\<lparr>Winning := ws, GameOver := True, ScoresR := ScoresR G + 1\<rparr>
              else G\<lparr>Winning := ws, GameOver := True, ScoresY := ScoresY G + 1\<rparr>)\<lparr>Message := []\<rparr>)"
      by auto
    let ?G' = "(if p = cellR then G\<lparr>Winning := ws, GameOver := True, ScoresR := ScoresR G + 1\<rparr>
              else G\<lparr>Winning := ws, GameOver := True, ScoresY := ScoresY G + 1\<rparr>)\<lparr>Message := []\<rparr>"
    from True have ne: "line \<noteq> []" by auto
    with cases obtain ds1 d ds2 where dd: "dirs = ds1 @ d # ds2" "isRun (Grid G) p r c d line"
      "\<forall>d'\<in>set ds1. \<forall>l. isRun (Grid G) p r c d' l \<longrightarrow> length l < 4"
      by blast
    from dd(1) have "d \<in> set dirs" by (metis in_set_conv_decomp)
    then have "d \<noteq> (0, 0)" by (auto simp: dirs_def)
    from isRun_distinct[OF dd(2) this] have dist: "distinct (take 4 line)" by simp
    have len: "length (take 4 line) = 4" using True by simp
    have f: "GameOver ?G'" "Message ?G' = []" "ScoresR ?G' + ScoresY ?G' = ScoresR G + ScoresY G + 1"
      "Winning ?G' = ws"
      by simp_all
    show ?thesis
      apply (rule exI[of _ line], rule exI[of _ True], rule exI[of _ ?G'])
      using line(1) ws(3) iff True dd dist len f ws(2) four
      by (simp only: simp_thms not_less[symmetric] not_le) blast
  next
    case False
    then have e: "line = []" using cases by auto
    let ?b = "noEmpty (Grid G ! 0)"
    let ?G' = "if ?b then G\<lparr>GameOver := True, Message := drawMessage\<rparr> else G"
    have cr: "checkResult G r c p = Some (?b, ?G')" using line(2) False by auto
    have f: "Winning ?G' = Winning G" "ScoresR ?G' = ScoresR G" "ScoresY ?G' = ScoresY G"
      by simp_all
    show ?thesis
      apply (rule exI[of _ line], rule exI[of _ ?b], rule exI[of _ ?G'])
      using line(1) cr iff False e f four by simp
  qed
qed

lemmas line_eval = winningLine_def lineThrough_def extendFwd.simps extendBwd.simps inGrid_def
  cellAt_def index_def dirs_def cellR_def exampleLines_def exampleGame_def

lemma exampleLines_wf: "wfGame exampleLines"
  by (simp add: wfGame_def exampleLines_def exampleGame_def rectangular_def eval_nat_numeral)

theorem winningLine_spec_witness:
  "wfGame exampleLines \<and> cellAt (Grid exampleLines) 5 2 = Some cellR \<and>
   winningLine (Grid exampleLines) 5 2 cellR = Some [(5, 0), (5, 1), (5, 2), (5, 3)] \<and>
   (\<exists>b G'. checkResult exampleLines 5 2 cellR = Some (b, G') \<and> b \<and> GameOver G' \<and>
      ScoresR G' + ScoresY G' = ScoresR exampleLines + ScoresY exampleLines + 1)"
proof -
  have c: "cellAt (Grid exampleLines) 5 2 = Some cellR" by code_simp
  have w: "winningLine (Grid exampleLines) 5 2 cellR = Some [(5, 0), (5, 1), (5, 2), (5, 3)]"
    by (simp add: line_eval)
  from winningLine_spec[OF exampleLines_wf c] w
  have "\<exists>b G'. checkResult exampleLines 5 2 cellR = Some (b, G') \<and> b \<and> GameOver G' \<and>
      ScoresR G' + ScoresY G' = ScoresR exampleLines + ScoresY exampleLines + 1"
    by auto
  with exampleLines_wf c w show ?thesis by blast
qed

text \<open>
  Claim C6 as stated says that the line returned is the longest run among the four axes.
  On the board \<open>exampleLines\<close> the cell (5, 0) lies on a vertical run of five red pieces,
  and \<^verbatim>\<open>winningLine\<close> returns the horizontal run of four.
\<close>

theorem winningLine_longest_counterexample:
  "winningLine (Grid exampleLines) 5 0 cellR = Some [(5, 0), (5, 1), (5, 2), (5, 3)] \<and>
   lineThrough (Grid exampleLines) 6 7 5 0 cellR (1, 0) = Some [(1, 0), (2, 0), (3, 0), (4, 0), (5, 0)] \<and>
   isRun (Grid exampleLines) cellR 5 0 (1, 0) [(1, 0), (2, 0), (3, 0), (4, 0), (5, 0)]"
proof -
  have 1: "winningLine (Grid exampleLines) 5 0 cellR = Some [(5, 0), (5, 1), (5, 2), (5, 3)]"
    by (simp add: line_eval)
  have 2: "lineThrough (Grid exampleLines) 6 7 5 0 cellR (1, 0) = Some [(1, 0), (2, 0), (3, 0), (4, 0), (5, 0)]"
    by (simp add: line_eval)
  have r: "rectangular (Grid exampleLines)"
    using exampleLines_wf by (simp add: wfGame_def)
  have "length (Grid exampleLines) = 6" "length (Grid exampleLines ! 0) = 7"
    by (simp_all add: exampleLines_def exampleGame_def)
  with lineThrough_isRun[OF r, of "(1, 0)" 6 7 5 0 cellR] 2
  have 3: "isRun (Grid exampleLines) cellR 5 0 (1, 0) [(1, 0), (2, 0), (3, 0), (4, 0), (5, 0)]"
    by simp
  from 1 2 3 show ?thesis by blast
qed
section \<open>Properties: applied moves\<close>

lemma setCell_restore:
  assumes "cellAt g r c = Some v" "setCell g r c v' = Some g1"
  shows "setCell g1 r c v = Some g"
proof -
  from assms(1) have rg: "0 \<le> r" "r < int (length g)" "0 \<le> c" "c < int (length (g ! nat r))"
    and v: "g ! nat r ! nat c = v"
    by (auto simp: cellAt_def index_def split: if_splits)
  from assms(2) rg have g1: "g1 = g[nat r := (g ! nat r)[nat c := v']]"
    by (simp add: setCell_def index_def)
  have "(g ! nat r)[nat c := v] = g ! nat r" by (metis list_update_id v)
  then show ?thesis using rg g1 by (simp add: setCell_def index_def)
qed

lemma needBlockLoop_same: "needBlockLoop g ccs = Some (b, g') \<Longrightarrow> g' = g"
proof (induction ccs arbitrary: g)
  case Nil
  then show ?case by simp
next
  case (Cons cc ccs)
  from Cons.prems obtain rr where rr: "dropRow (Grid g) cc (GravityUp g) = Some rr"
    by (auto split: option.splits)
  show ?case
  proof (cases "rr = - 1")
    case True
    with Cons rr show ?thesis by simp
  next
    case False
    with Cons.prems rr obtain v where v: "cellAt (Grid g) rr cc = Some v"
      by (auto split: option.splits)
    show ?thesis
    proof (cases "v = cellEmpty")
      case ne: False
      with Cons rr False v show ?thesis by simp
    next
      case True
      with Cons.prems rr False v obtain g1 line g2 where
        s: "setCell (Grid g) rr cc cellR = Some g1" "winningLine g1 rr cc cellR = Some line"
          "setCell g1 rr cc cellEmpty = Some g2"
        by (auto split: option.splits)
      from setCell_restore[OF v s(1)] s(3) True have "g2 = Grid g" by simp
      then have "g\<lparr>Grid := g2\<rparr> = g" by simp
      with Cons.prems Cons.IH[of g] rr False v True s show ?thesis
        by (auto split: if_splits)
    qed
  qed
qed

lemma chooseLoop_same: "chooseLoop g bc bs cs = Some (col, g') \<Longrightarrow> g' = g"
proof (induction cs arbitrary: bc bs)
  case Nil
  then show ?case by simp
next
  case (Cons c cs)
  from Cons.prems obtain r where r: "dropRow (Grid g) c (GravityUp g) = Some r"
    by (auto split: option.splits)
  show ?case
  proof (cases "r = - 1")
    case True
    with Cons r show ?thesis by simp
  next
    case False
    with Cons.prems r obtain v where v: "cellAt (Grid g) r c = Some v"
      by (auto split: option.splits)
    show ?thesis
    proof (cases "v = cellEmpty")
      case ne: False
      with Cons r False v show ?thesis by simp
    next
      case True
      with Cons.prems r False v obtain g1 line where
        s: "setCell (Grid g) r c cellY = Some g1" "winningLine g1 r c cellY = Some line"
        by (auto split: option.splits)
      from setCell_restore[OF v s(1)] True have rest: "setCell g1 r c cellEmpty = Some (Grid g)" by simp
      show ?thesis
      proof (cases "4 \<le> length line")
        case True
        with Cons.prems r False v \<open>v = cellEmpty\<close> s rest show ?thesis by simp
      next
        case short: False
        with Cons.prems r False v True s obtain nb g3 e where
          n: "needBlockLoop (g\<lparr>Grid := g1\<rparr>) [0..Cols g - 1] = Some (nb, g3)"
            "evalBoard g3 cellY = Some e"
          by (auto split: option.splits prod.splits)
        from needBlockLoop_same[OF n(1)] have g3: "g3 = g\<lparr>Grid := g1\<rparr>" .
        then have b2: "setCell (Grid g3) r c cellEmpty = Some (Grid g)" "g3\<lparr>Grid := Grid g\<rparr> = g"
          using rest by simp_all
        from Cons.prems r False v True s short n b2
        have "chooseLoop g c ((if nb then e + 5000 else e) - \<bar>c - Cols g3 div 2\<bar>) cs = Some (col, g') \<or>
              chooseLoop g bc bs cs = Some (col, g')"
          by (auto simp: Let_def split: if_splits)
        with Cons.IH show ?thesis by blast
      qed
    qed
  qed
qed

lemma chooseAIMove_same: "chooseAIMove g = Some (col, g') \<Longrightarrow> g' = g"
  unfolding chooseAIMove_def by (rule chooseLoop_same)

lemma checkResult_fields:
  assumes "checkResult g r c p = Some (b, g')"
  shows "Grid g' = Grid g \<and> Turns g' = Turns g \<and> GravityUp g' = GravityUp g \<and>
         Current g' = Current g \<and> Mode g' = Mode g \<and> Cols g' = Cols g \<and> Rows g' = Rows g \<and>
         LastPlayed g' = LastPlayed g \<and>
         (b \<longrightarrow> GameOver g') \<and> (\<not> b \<longrightarrow> g' = g)"
  using assms
  by (auto simp: checkResult_def split: option.splits if_splits bool.splits)

lemma handlePlayMove_shape:
  assumes "handlePlayMove g c = Some (oc, g')"
  shows "(oc = Refused \<and> g' = g) \<or>
         (\<exists>row b grid1 g2.
            dropRow (Grid g) c (GravityUp g) = Some row \<and> row \<noteq> - 1 \<and>
            cellAt (Grid g) row c = Some cellEmpty \<and>
            setCell (Grid g) row c (Current g) = Some grid1 \<and>
            checkResult (g\<lparr>Grid := grid1, LastPlayed := Current g, Turns := Turns g + 1\<rparr>) row c (Current g) = Some (b, g2) \<and>
            oc = (if b then Ended else Continues) \<and>
            g' = (if b then g2 else passTurn (g\<lparr>Grid := grid1, LastPlayed := Current g, Turns := Turns g + 1\<rparr>)
                    (if Current g = cellR then cellY else cellR)))"
proof -
  from assms obtain row where row: "dropRow (Grid g) c (GravityUp g) = Some row"
    by (auto simp: handlePlayMove_def split: option.splits)
  show ?thesis
  proof (cases "row = - 1")
    case True
    with assms row show ?thesis by (simp add: handlePlayMove_def)
  next
    case False
    with assms row obtain v where v: "cellAt (Grid g) row c = Some v"
      by (auto simp: handlePlayMove_def split: option.splits)
    show ?thesis
    proof (cases "v = cellEmpty")
      case ne: False
      with assms row False v show ?thesis by (simp add: handlePlayMove_def)
    next
      case True
      with assms row False v obtain grid1 where g1: "setCell (Grid g) row c (Current g) = Some grid1"
        by (auto simp: handlePlayMove_def split: option.splits)
      let ?g1 = "g\<lparr>Grid := grid1, LastPlayed := Current g, Turns := Turns g + 1\<rparr>"
      from assms row False v True g1 obtain b g2 where
        cr: "checkResult ?g1 row c (Current g) = Some (b, g2)"
        by (auto simp: handlePlayMove_def split: option.splits)
      from checkResult_fields[OF cr] have f: "\<not> b \<longrightarrow> g2 = ?g1" by simp
      have r: "oc = (if b then Ended else Continues) \<and>
            g' = (if b then g2 else passTurn ?g1 (if Current g = cellR then cellY else cellR))"
        using assms row False v True g1 cr f
        by (cases b) (auto simp: handlePlayMove_def passTurn_def Let_def)
      from row False v True g1 cr r show ?thesis by blast
    qed
  qed
qed

lemma handleOnlineMove_shape:
  assumes "handleOnlineMove g c = Some (oc, g')"
  shows "(oc = Refused \<and> g' = g) \<or>
         (\<exists>row b grid1 g2.
            dropRow (Grid g) c (GravityUp g) = Some row \<and> row \<noteq> - 1 \<and>
            cellAt (Grid g) row c = Some cellEmpty \<and>
            setCell (Grid g) row c (Current g) = Some grid1 \<and>
            checkResult (g\<lparr>Grid := grid1, Turns := Turns g + 1\<rparr>) row c (Current g) = Some (b, g2) \<and>
            oc = (if b then Ended else Continues) \<and>
            g' = (if b then g2 else passTurn (g\<lparr>Grid := grid1, Turns := Turns g + 1\<rparr>)
                    (if Current g = cellR then cellY else cellR)))"
proof -
  from assms obtain row where row: "dropRow (Grid g) c (GravityUp g) = Some row"
    by (auto simp: handleOnlineMove_def split: option.splits)
  show ?thesis
  proof (cases "row = - 1")
    case True
    with assms row show ?thesis by (simp add: handleOnlineMove_def)
  next
    case False
    with assms row obtain v where v: "cellAt (Grid g) row c = Some v"
      by (auto simp: handleOnlineMove_def split: option.splits)
    show ?thesis
    proof (cases "v = cellEmpty")
      case ne: False
      with assms row False v show ?thesis by (simp add: handleOnlineMove_def)
    next
      case True
      with assms row False v obtain grid1 where g1: "setCell (Grid g) row c (Current g) = Some grid1"
        by (auto simp: handleOnlineMove_def split: option.splits)
      let ?g1 = "g\<lparr>Grid := grid1, Turns := Turns g + 1\<rparr>"
      from assms row False v True g1 obtain b g2 where
        cr: "checkResult ?g1 row c (Current g) = Some (b, g2)"
        by (auto simp: handleOnlineMove_def split: option.splits)
      from checkResult_fields[OF cr] have f: "\<not> b \<longrightarrow> g2 = ?g1" by simp
      have r: "oc = (if b then Ended else Continues) \<and>
            g' = (if b then g2 else passTurn ?g1 (if Current g = cellR then cellY else cellR))"
        using assms row False v True g1 cr f
        by (cases b) (auto simp: handleOnlineMove_def passTurn_def Let_def)
      from row False v True g1 cr r show ?thesis by blast
    qed
  qed
qed

lemma handlePlayAI_shape:
  assumes "handlePlayAI g = Some (oc, g')"
  shows "(oc = Refused \<and> g' = g) \<or>
         (\<exists>c row b grid1 g2.
            chooseAIMove g = Some (c, g) \<and> 0 \<le> c \<and>
            dropRow (Grid g) c (GravityUp g) = Some row \<and> row \<noteq> - 1 \<and>
            cellAt (Grid g) row c = Some cellEmpty \<and>
            setCell (Grid g) row c cellY = Some grid1 \<and>
            checkResult (g\<lparr>Grid := grid1, LastPlayed := Current g, Turns := Turns g + 1\<rparr>) row c cellY = Some (b, g2) \<and>
            oc = (if b then Ended else Continues) \<and>
            g' = (if b then g2 else passTurn (g\<lparr>Grid := grid1, LastPlayed := Current g, Turns := Turns g + 1\<rparr>) cellR))"
proof -
  from assms obtain c g0 where "chooseAIMove g = Some (c, g0)"
    by (auto simp: handlePlayAI_def split: option.splits)
  with chooseAIMove_same[OF this] have ch: "chooseAIMove g = Some (c, g)" by simp
  show ?thesis
  proof (cases "0 \<le> c")
    case neg: False
    with assms ch show ?thesis by (simp add: handlePlayAI_def)
  next
    case pos: True
    with assms ch obtain row where row: "dropRow (Grid g) c (GravityUp g) = Some row"
      by (auto simp: handlePlayAI_def split: option.splits)
    show ?thesis
    proof (cases "row = - 1")
      case True
      with assms ch pos row show ?thesis by (simp add: handlePlayAI_def)
    next
      case False
      with assms ch pos row obtain v where v: "cellAt (Grid g) row c = Some v"
        by (auto simp: handlePlayAI_def split: option.splits)
      show ?thesis
      proof (cases "v = cellEmpty")
        case ne: False
        with assms ch pos row False v show ?thesis by (simp add: handlePlayAI_def)
      next
        case True
        with assms ch pos row False v obtain grid1 where g1: "setCell (Grid g) row c cellY = Some grid1"
          by (auto simp: handlePlayAI_def split: option.splits)
        let ?g1 = "g\<lparr>Grid := grid1, LastPlayed := Current g, Turns := Turns g + 1\<rparr>"
        from assms ch pos row False v True g1 obtain b g2 where
          cr: "checkResult ?g1 row c cellY = Some (b, g2)"
          by (auto simp: handlePlayAI_def split: option.splits)
        from checkResult_fields[OF cr] have f: "\<not> b \<longrightarrow> g2 = ?g1" by simp
        have r: "oc = (if b then Ended else Continues) \<and>
              g' = (if b then g2 else passTurn ?g1 cellR)"
          using assms ch pos row False v True g1 cr f
          by (cases b) (auto simp: handlePlayAI_def passTurn_def Let_def)
        from ch pos row False v True g1 cr r show ?thesis by blast
      qed
    qed
  qed
qed

text \<open>The common part of the three shapes.\<close>

lemma move_shape:
  assumes "move g g'"
  shows "\<not> GameOver g \<and>
         (\<exists>c pc nxt row b g1 g2.
            dropRow (Grid g) c (GravityUp g) = Some row \<and> row \<noteq> - 1 \<and>
            cellAt (Grid g) row c = Some cellEmpty \<and>
            setCell (Grid g) row c pc = Some (Grid g1) \<and> (pc = cellR \<or> pc = cellY \<or> pc = Current g) \<and>
            Turns g1 = Turns g + 1 \<and> GravityUp g1 = GravityUp g \<and> GameOver g1 = GameOver g \<and>
            Winning g1 = Winning g \<and>
            checkResult g1 row c pc = Some (b, g2) \<and>
            g' = (if b then g2 else passTurn g1 nxt))"
  using assms
proof cases
  case (move_player c oc)
  from handlePlayMove_shape[OF move_player(4)] move_player(5) obtain row b grid1 g2 where x:
    "dropRow (Grid g) c (GravityUp g) = Some row" "row \<noteq> - 1"
    "cellAt (Grid g) row c = Some cellEmpty"
    "setCell (Grid g) row c (Current g) = Some grid1"
    "checkResult (g\<lparr>Grid := grid1, LastPlayed := Current g, Turns := Turns g + 1\<rparr>) row c (Current g) = Some (b, g2)"
    "g' = (if b then g2 else passTurn (g\<lparr>Grid := grid1, LastPlayed := Current g, Turns := Turns g + 1\<rparr>)
             (if Current g = cellR then cellY else cellR))"
    by blast
  let ?g1 = "g\<lparr>Grid := grid1, LastPlayed := Current g, Turns := Turns g + 1\<rparr>"
  have "setCell (Grid g) row c (Current g) = Some (Grid ?g1)" "Turns ?g1 = Turns g + 1"
    "GravityUp ?g1 = GravityUp g" "GameOver ?g1 = GameOver g" "Winning ?g1 = Winning g"
    using x(4) by simp_all
  with x(1,2,3,5,6) move_player(1) show ?thesis by blast
next
  case (move_computer oc)
  from handlePlayAI_shape[OF move_computer(4)] move_computer(5) obtain c row b grid1 g2 where x:
    "dropRow (Grid g) c (GravityUp g) = Some row" "row \<noteq> - 1"
    "cellAt (Grid g) row c = Some cellEmpty"
    "setCell (Grid g) row c cellY = Some grid1"
    "checkResult (g\<lparr>Grid := grid1, LastPlayed := Current g, Turns := Turns g + 1\<rparr>) row c cellY = Some (b, g2)"
    "g' = (if b then g2 else passTurn (g\<lparr>Grid := grid1, LastPlayed := Current g, Turns := Turns g + 1\<rparr>) cellR)"
    by blast
  let ?g1 = "g\<lparr>Grid := grid1, LastPlayed := Current g, Turns := Turns g + 1\<rparr>"
  have "setCell (Grid g) row c cellY = Some (Grid ?g1)" "Turns ?g1 = Turns g + 1"
    "GravityUp ?g1 = GravityUp g" "GameOver ?g1 = GameOver g" "Winning ?g1 = Winning g"
    using x(4) by simp_all
  with x(1,2,3,5,6) move_computer(3) show ?thesis by blast
next
  case (move_online side c oc)
  from handleOnlineMove_shape[OF move_online(3)] move_online(4) obtain row b grid1 g2 where x:
    "dropRow (Grid g) c (GravityUp g) = Some row" "row \<noteq> - 1"
    "cellAt (Grid g) row c = Some cellEmpty"
    "setCell (Grid g) row c (Current g) = Some grid1"
    "checkResult (g\<lparr>Grid := grid1, Turns := Turns g + 1\<rparr>) row c (Current g) = Some (b, g2)"
    "g' = (if b then g2 else passTurn (g\<lparr>Grid := grid1, Turns := Turns g + 1\<rparr>)
             (if Current g = cellR then cellY else cellR))"
    by blast
  let ?g1 = "g\<lparr>Grid := grid1, Turns := Turns g + 1\<rparr>"
  have "setCell (Grid g) row c (Current g) = Some (Grid ?g1)" "Turns ?g1 = Turns g + 1"
    "GravityUp ?g1 = GravityUp g" "GameOver ?g1 = GameOver g" "Winning ?g1 = Winning g"
    using x(4) by simp_all
  with x(1,2,3,5,6) move_online(2) show ?thesis by blast
qed

lemma move_step:
  assumes "move g g'"
  shows "\<not> GameOver g \<and> Turns g' = Turns g + 1 \<and>
         (GravityUp g' \<noteq> GravityUp g \<longleftrightarrow> Turns g' mod 5 = 0 \<and> \<not> GameOver g') \<and>
         (\<forall>r c. cellAt (Grid g) r c \<noteq> Some cellEmpty \<longrightarrow> cellAt (Grid g') r c = cellAt (Grid g) r c)"
proof -
  from move_shape[OF assms] obtain c pc nxt row b g1 g2 where x:
    "\<not> GameOver g" "cellAt (Grid g) row c = Some cellEmpty"
    "setCell (Grid g) row c pc = Some (Grid g1)"
    "Turns g1 = Turns g + 1" "GravityUp g1 = GravityUp g" "GameOver g1 = GameOver g"
    "checkResult g1 row c pc = Some (b, g2)"
    "g' = (if b then g2 else passTurn g1 nxt)"
    by blast
  note f = checkResult_fields[OF x(7)]
  from setCell_Some[OF x(2), of pc] x(3)
  have cells: "\<forall>r' c'. cellAt (Grid g1) r' c' = (if r' = row \<and> c' = c then Some pc else cellAt (Grid g) r' c')"
    by auto
  have grid: "Grid g' = Grid g1"
    using x(8) f by (cases b) (simp_all add: passTurn_def)
  have 1: "Turns g' = Turns g + 1"
    using x(8) f x(4) by (cases b) (simp_all add: passTurn_def)
  have 2: "GravityUp g' \<noteq> GravityUp g \<longleftrightarrow> Turns g' mod 5 = 0 \<and> \<not> GameOver g'"
  proof (cases b)
    case True
    with x(8) f x(5) show ?thesis by simp
  next
    case False
    with f have "g2 = g1" by simp
    with False x(8) x(1,4,5,6) show ?thesis by (simp add: passTurn_def)
  qed
  have 3: "\<forall>r c. cellAt (Grid g) r c \<noteq> Some cellEmpty \<longrightarrow> cellAt (Grid g') r c = cellAt (Grid g) r c"
    using cells grid x(2) by auto
  from x(1) 1 2 3 show ?thesis by blast
qed

lemma played_turns: "played g0 n g \<Longrightarrow> Turns g = Turns g0 + int n"
  by (induction rule: played.induct) (auto dest: move_step)

lemma played_blocks:
  "played g0 n g \<Longrightarrow> cellAt (Grid g0) r c = Some cellBlk \<Longrightarrow> cellAt (Grid g) r c = Some cellBlk"
proof (induction rule: played.induct)
  case played_start
  then show ?case by simp
next
  case (played_move n g g')
  then have "cellAt (Grid g) r c = Some cellBlk" by simp
  moreover have "Some cellBlk \<noteq> Some cellEmpty" by (simp add: cellBlk_def cellEmpty_def)
  ultimately show ?case using move_step[OF played_move(2)] by metis
qed

lemma played_trans: "played g1 m g2 \<Longrightarrow> played g0 n g1 \<Longrightarrow> played g0 (n + m) g2"
  by (induction rule: played.induct) (auto intro: played.intros)

lemma newGame_fields:
  assumes "newGame rows cols blocks now rnd = Some g"
  shows "Turns g = 0 \<and> \<not> GameOver g \<and> \<not> GravityUp g \<and> Current g = cellR \<and> Mode g = ''local''"
  using assms by (auto simp: newGame_def split: if_splits option.splits)

text \<open>
  Claim C2. Start from a new game (whatever names, mode and lobby code the start handlers
  then write into it) and apply \<open>n\<close> moves; let one more move be applied. Then the turn
  counter was \<open>n\<close> and becomes \<open>n + 1\<close>, the game was not over, and the gravity flag
  changes on this move exactly when \<open>n + 1\<close> is a multiple of 5 and the move does not end
  the game.
\<close>

theorem gravity_flip_spec:
  assumes "newGame rows cols blocks now rnd = Some gn"
      and "g0 = gn\<lparr>Player1 := p1, Player2 := p2, Difficulty := diff, Mode := mode,
                    LobbyCode := code, ThisIsRed := red\<rparr>"
      and "played g0 n g" and "move g g'"
  shows "Turns g = int n \<and> Turns g' = int n + 1 \<and> \<not> GameOver g \<and>
         (GravityUp g' \<noteq> GravityUp g \<longleftrightarrow> (int n + 1) mod 5 = 0 \<and> \<not> GameOver g')"
proof -
  from newGame_fields[OF assms(1)] assms(2) have "Turns g0 = 0" by simp
  with played_turns[OF assms(3)] have "Turns g = int n" by simp
  with move_step[OF assms(4)] show ?thesis by simp
qed

text \<open>
  Claim C9. In every game reached from a new game by applied moves (the player's and the
  computer's in a session game, the players' in a lobby), every cell that held the block
  marker in the new game still holds it, and so it does after any further move; a move
  changes no cell but one that was empty.
\<close>

theorem blocks_kept_spec:
  assumes "newGame rows cols blocks now rnd = Some gn"
      and "g0 = gn\<lparr>Player1 := p1, Player2 := p2, Difficulty := diff, Mode := mode,
                    LobbyCode := code, ThisIsRed := red\<rparr>"
      and "played g0 n g" and "cellAt (Grid g0) r c = Some cellBlk"
  shows "cellAt (Grid g) r c = Some cellBlk \<and>
         (\<forall>g'. move g g' \<longrightarrow>
            cellAt (Grid g') r c = Some cellBlk \<and>
            (\<forall>r' c'. cellAt (Grid g') r' c' \<noteq> cellAt (Grid g) r' c' \<longrightarrow>
               cellAt (Grid g) r' c' = Some cellEmpty))"
proof -
  from played_blocks[OF assms(3,4)] have 1: "cellAt (Grid g) r c = Some cellBlk" .
  have "cellAt (Grid g') r c = Some cellBlk \<and>
            (\<forall>r' c'. cellAt (Grid g') r' c' \<noteq> cellAt (Grid g) r' c' \<longrightarrow>
               cellAt (Grid g) r' c' = Some cellEmpty)" if m: "move g g'" for g'
  proof -
    from played_blocks[OF played_move[OF assms(3) m] assms(4)]
    have "cellAt (Grid g') r c = Some cellBlk" .
    moreover from move_step[OF m]
    have "\<forall>r' c'. cellAt (Grid g') r' c' \<noteq> cellAt (Grid g) r' c' \<longrightarrow>
               cellAt (Grid g) r' c' = Some cellEmpty" by blast
    ultimately show ?thesis by blast
  qed
  with 1 show ?thesis by blast
qed

lemma handlePlay_moves:
  assumes "handlePlay g post col = Some (resp, g')"
  shows "g' = g \<or> move g g' \<or> (\<exists>g1. move g g1 \<and> move g1 g')"
proof (cases "post \<and> \<not> GameOver g \<and> (\<exists>c. col = Some c \<and> 0 \<le> c \<and> c < Cols g)")
  case False
  with assms show ?thesis by (auto simp: handlePlay_def split: option.splits if_splits)
next
  case True
  then obtain c where c: "post" "\<not> GameOver g" "col = Some c" "0 \<le> c" "c < Cols g" by blast
  with assms obtain oc g1 where m: "handlePlayMove g c = Some (oc, g1)"
    by (auto simp: handlePlay_def split: option.splits)
  show ?thesis
  proof (cases oc)
    case Refused
    with handlePlayMove_shape[OF m] have "g1 = g" by auto
    with assms c m Refused show ?thesis by (simp add: handlePlay_def)
  next
    case Ended
    then have "move g g1" using move_player[OF c(2,4,5) m] by simp
    with assms c m Ended show ?thesis by (simp add: handlePlay_def)
  next
    case Continues
    then have mv: "move g g1" using move_player[OF c(2,4,5) m] by simp
    show ?thesis
    proof (cases "Mode g1 = ''ai'' \<and> Current g1 = cellY \<and> \<not> GameOver g1")
      case False
      with assms c m Continues mv show ?thesis by (auto simp: handlePlay_def)
    next
      case ai: True
      with assms c m Continues obtain oc2 g2 where a: "handlePlayAI g1 = Some (oc2, g2)" "g' = g2"
        by (auto simp: handlePlay_def split: option.splits outcome.splits)
      show ?thesis
      proof (cases "oc2 = Refused")
        case True
        with handlePlayAI_shape[OF a(1)] have "g2 = g1" by auto
        with a mv show ?thesis by simp
      next
        case False
        with ai a(1) have "move g1 g2" by (auto intro: move_computer)
        with mv a(2) show ?thesis by blast
      qed
    qed
  qed
qed

lemma handleOnlinePlay_moves:
  assumes "handleOnlinePlay s post code side c now sid = Some (resp, s')" "lobbies s code = Some lb"
  shows "s' = s \<or> (\<exists>g'. move (Game lb) g' \<and>
           lobbies s' = (lobbies s)(code \<mapsto> lb\<lparr>Game := g', UpdatedAt := now\<rparr>))"
proof (cases "post \<and> Current (Game lb) = (if side = ''Y'' then cellY else cellR) \<and> \<not> GameOver (Game lb)")
  case False
  with assms show ?thesis by (auto simp: handleOnlinePlay_def Let_def split: if_splits)
next
  case True
  with assms obtain oc g' where m: "handleOnlineMove (Game lb) c = Some (oc, g')"
    by (auto simp: handleOnlinePlay_def Let_def split: option.splits if_splits)
  show ?thesis
  proof (cases "oc = Refused")
    case r: True
    with assms True m show ?thesis by (auto simp: handleOnlinePlay_def Let_def split: if_splits)
  next
    case False
    with True m have "move (Game lb) g'" by (auto intro: move_online)
    moreover have "lobbies s' = (lobbies s)(code \<mapsto> lb\<lparr>Game := g', UpdatedAt := now\<rparr>)"
      using assms True m False by (cases oc) (auto simp: handleOnlinePlay_def Let_def split: if_splits)
    ultimately show ?thesis by blast
  qed
qed

lemma playAll_played:
  "playAll g cs = Some g' \<Longrightarrow> played g (nat (Turns g' - Turns g)) g'"
proof (induction cs arbitrary: g)
  case Nil
  then show ?case by (auto intro: played_start)
next
  case (Cons c cs)
  then obtain resp g1 where h: "handlePlay g True (Some c) = Some (resp, g1)" "playAll g1 cs = Some g'"
    by (auto split: option.splits)
  from Cons.IH[OF h(2)] have p1: "played g1 (nat (Turns g' - Turns g1)) g'" .
  have "0 \<le> int (nat (Turns g' - Turns g1))" by (rule of_nat_0_le_iff)
  with played_turns[OF p1] have t1: "Turns g1 \<le> Turns g'" by linarith
  from handlePlay_moves[OF h(1)] consider "g1 = g" | "move g g1" | g2 where "move g g2" "move g2 g1"
    by blast
  then show ?case
  proof cases
    case 1
    with p1 show ?thesis by simp
  next
    case 2
    then have "played g 1 g1" using played_move[OF played_start] by simp
    from played_trans[OF p1 this] move_step[OF 2] t1 show ?thesis
      by (simp add: nat_add_distrib nat_diff_distrib' Suc_nat_eq_nat_zadd1)
  next
    case 3
    then have "played g (Suc (Suc 0)) g1" by (blast intro: played.intros)
    then have "played g 2 g1" by (simp add: numeral_2_eq_2)
    from played_trans[OF p1 this] move_step[OF 3(1)] move_step[OF 3(2)] t1
    have "played g (2 + nat (Turns g' - Turns g1)) g'" "Turns g1 = Turns g + 2" by simp_all
    moreover have "2 + nat (Turns g' - Turns g1) = nat (Turns g' - Turns g)"
      using t1 \<open>Turns g1 = Turns g + 2\<close> by simp
    ultimately show ?thesis by simp
  qed
qed
section \<open>Properties: example games\<close>

lemma example4_run: "playAll exampleGame [0, 1, 2, 3] = Some example4"
  by code_simp

lemma example5_move: "handlePlayMove example4 4 = Some (Continues, example5)"
  by code_simp

lemma example9_run: "playAll exampleGame [0, 1, 2, 3, 4, 2, 3, 4, 5] = Some example9"
  by code_simp

lemma exampleDraw_move: "handlePlayMove example9 6 = Some (Ended, exampleDraw)"
  by code_simp

lemma exampleGame_start:
  "exampleGame = exampleGame\<lparr>Player1 := [], Player2 := [], Difficulty := [], Mode := ''local'',
     LobbyCode := [], ThisIsRed := False\<rparr>"
  by (simp add: exampleGame_def)

lemma example4_played: "played exampleGame 4 example4"
  using playAll_played[OF example4_run] by (simp add: example4_def exampleGame_def)

lemma example9_played: "played exampleGame 9 example9"
  using playAll_played[OF example9_run] by (simp add: example9_def exampleGame_def)

lemma example5_moved: "move example4 example5"
  by (rule move_player[OF _ _ _ example5_move]) (simp_all add: example4_def exampleGame_def)

lemma exampleDraw_moved: "move example9 exampleDraw"
  by (rule move_player[OF _ _ _ exampleDraw_move]) (simp_all add: example9_def exampleGame_def)

lemma exampleDraw_played: "played exampleGame 10 exampleDraw"
  using played_move[OF example9_played exampleDraw_moved] by (simp add: eval_nat_numeral)

theorem gravity_flip_spec_witness:
  "newGame 6 7 3 0 exampleRnd = Some exampleGame \<and>
   played exampleGame 4 example4 \<and> move example4 example5 \<and>
   Turns example5 = 5 \<and> GravityUp example5 \<noteq> GravityUp example4 \<and> \<not> GameOver example5 \<and>
   played exampleGame 9 example9 \<and> move example9 exampleDraw \<and>
   Turns exampleDraw = 10 \<and> GravityUp exampleDraw = GravityUp example9 \<and> GameOver exampleDraw"
proof -
  have a: "\<not> GameOver example5" "GameOver exampleDraw"
    by (simp_all add: example5_def exampleDraw_def exampleGame_def)
  from gravity_flip_spec[OF exampleGame_new exampleGame_start example4_played example5_moved] a(1)
  have 1: "Turns example5 = 5" "GravityUp example5 \<noteq> GravityUp example4" by simp_all
  from gravity_flip_spec[OF exampleGame_new exampleGame_start example9_played exampleDraw_moved] a(2)
  have 2: "Turns exampleDraw = 10" "GravityUp exampleDraw = GravityUp example9" by simp_all
  from exampleGame_new example4_played example5_moved example9_played exampleDraw_moved a 1 2
  show ?thesis by blast
qed

theorem blocks_kept_spec_witness:
  "newGame 6 7 3 0 exampleRnd = Some exampleGame \<and> played exampleGame 10 exampleDraw \<and>
   cellAt (Grid exampleGame) 0 1 = Some cellBlk \<and> cellAt (Grid exampleDraw) 0 1 = Some cellBlk \<and>
   played exampleGame 4 example4 \<and> move example4 example5 \<and>
   cellAt (Grid example5) 0 1 = Some cellBlk"
proof -
  have b: "cellAt (Grid exampleGame) 0 1 = Some cellBlk"
    by (simp add: exampleGame_def cellAt_def index_def cellBlk_def)
  from blocks_kept_spec[OF exampleGame_new exampleGame_start exampleDraw_played b]
  have 1: "cellAt (Grid exampleDraw) 0 1 = Some cellBlk" by blast
  from blocks_kept_spec[OF exampleGame_new exampleGame_start example4_played b] example5_moved
  have 2: "cellAt (Grid example5) 0 1 = Some cellBlk" by blast
  from exampleGame_new exampleDraw_played b 1 example4_played example5_moved 2
  show ?thesis by blast
qed

text \<open>
  Claim C10. On the easy board with the blocks at (0,0), (0,1) and (3,3), the columns
  0, 1, 2, 3, 4 (played downwards) and then 2, 3, 4, 5 (played upwards after the flip at
  turn 5) lead to the game \<open>example9\<close>, which is not over. The tenth move, in column 6,
  fills the last empty cell of row 0: \<^verbatim>\<open>winningLine\<close> finds nothing, \<^verbatim>\<open>isDraw\<close> is true and
  \<^verbatim>\<open>checkResult\<close> ends the game as a draw, with no point scored, while 29 cells of the
  board are empty and \<^verbatim>\<open>dropRow\<close> still finds the landing cell of row 1 in every column.
\<close>

theorem early_draw:
  "newGame 6 7 3 0 exampleRnd = Some exampleGame \<and>
   playAll exampleGame [0, 1, 2, 3, 4, 2, 3, 4, 5] = Some example9 \<and>
   Turns example9 = 9 \<and> \<not> GameOver example9 \<and>
   handlePlay example9 True (Some 6) = Some (RedirectResult, exampleDraw) \<and>
   checkResult (example9\<lparr>Grid := Grid exampleDraw, LastPlayed := cellY, Turns := 10\<rparr>) 0 6 cellY =
     Some (True, exampleDraw) \<and>
   winningLine (Grid exampleDraw) 0 6 cellY = Some [] \<and>
   isDraw (Grid exampleDraw) = Some True \<and>
   Turns exampleDraw = 10 \<and> GameOver exampleDraw \<and> Message exampleDraw = drawMessage \<and>
   ScoresR exampleDraw = 0 \<and> ScoresY exampleDraw = 0 \<and>
   cellAt (Grid exampleDraw) 1 0 = Some cellEmpty \<and>
   dropRow (Grid exampleDraw) 0 (GravityUp exampleDraw) = Some 1 \<and>
   map (\<lambda>c. dropRow (Grid exampleDraw) c (GravityUp exampleDraw)) [0, 1, 2, 3, 4, 5, 6] =
     [Some 1, Some 1, Some 1, Some 1, Some 1, Some 1, Some 1] \<and>
   length (filter (\<lambda>v. v = cellEmpty) (concat (Grid exampleDraw))) = 29"
proof -
  have 1: "handlePlay example9 True (Some 6) = Some (RedirectResult, exampleDraw)" by code_simp
  have 2: "checkResult (example9\<lparr>Grid := Grid exampleDraw, LastPlayed := cellY, Turns := 10\<rparr>) 0 6 cellY =
     Some (True, exampleDraw)" by code_simp
  have 3: "winningLine (Grid exampleDraw) 0 6 cellY = Some []" by code_simp
  have 4: "isDraw (Grid exampleDraw) = Some True" by code_simp
  have 5: "Turns example9 = 9" "\<not> GameOver example9" "Turns exampleDraw = 10" "GameOver exampleDraw"
    "Message exampleDraw = drawMessage" "ScoresR exampleDraw = 0" "ScoresY exampleDraw = 0"
    by (simp_all add: example9_def exampleDraw_def exampleGame_def)
  have 6: "cellAt (Grid exampleDraw) 1 0 = Some cellEmpty" by code_simp
  have 7: "dropRow (Grid exampleDraw) 0 (GravityUp exampleDraw) = Some 1" by code_simp
  have 8: "map (\<lambda>c. dropRow (Grid exampleDraw) c (GravityUp exampleDraw)) [0, 1, 2, 3, 4, 5, 6] =
     [Some 1, Some 1, Some 1, Some 1, Some 1, Some 1, Some 1]" by code_simp
  have 9: "length (filter (\<lambda>v. v = cellEmpty) (concat (Grid exampleDraw))) = 29" by code_simp
  from exampleGame_new example9_run 1 2 3 4 5 6 7 8 9 show ?thesis by blast
qed
section \<open>Properties: online moves\<close>

lemma setCell_wf:
  assumes "wfGame g" "setCell (Grid g) r c v = Some grid1" "Winning g1 = Winning g" "Grid g1 = grid1"
  shows "wfGame g1"
proof -
  from assms(1) have "rectangular (Grid g)" by (simp add: wfGame_def)
  from setCell_rect[OF assms(2) this] assms(1,3,4) show ?thesis by (simp add: wfGame_def)
qed

lemma handleOnlineMove_total:
  assumes "wfGame g"
  shows "\<exists>row. dropRow (Grid g) c (GravityUp g) = Some row \<and>
     (row = - 1 \<longrightarrow> handleOnlineMove g c = Some (Refused, g)) \<and>
     (row \<noteq> - 1 \<longrightarrow>
        (\<exists>oc g'. handleOnlineMove g c = Some (oc, g') \<and> oc \<noteq> Refused \<and>
           cellAt (Grid g) row c = Some cellEmpty \<and>
           cellAt (Grid g') row c = Some (Current g) \<and>
           (\<forall>r' c'. (r', c') \<noteq> (row, c) \<longrightarrow> cellAt (Grid g') r' c' = cellAt (Grid g) r' c') \<and>
           Turns g' = Turns g + 1 \<and>
           (oc = Ended \<longrightarrow> GameOver g' \<and> Current g' = Current g) \<and>
           (oc = Continues \<longrightarrow> GameOver g' = GameOver g \<and>
              Current g' = (if Current g = cellR then cellY else cellR))))"
proof -
  from assms have rect: "rectangular (Grid g)" by (simp add: wfGame_def)
  from dropRow_cases[OF rect, of c "GravityUp g"] obtain row where row:
    "dropRow (Grid g) c (GravityUp g) = Some row"
    "row \<noteq> - 1 \<longrightarrow> cellAt (Grid g) row c = Some cellEmpty"
    by blast
  have 1: "row = - 1 \<longrightarrow> handleOnlineMove g c = Some (Refused, g)"
    using row(1) by (simp add: handleOnlineMove_def)
  have 2: "\<exists>oc g'. handleOnlineMove g c = Some (oc, g') \<and> oc \<noteq> Refused \<and>
           cellAt (Grid g) row c = Some cellEmpty \<and>
           cellAt (Grid g') row c = Some (Current g) \<and>
           (\<forall>r' c'. (r', c') \<noteq> (row, c) \<longrightarrow> cellAt (Grid g') r' c' = cellAt (Grid g) r' c') \<and>
           Turns g' = Turns g + 1 \<and>
           (oc = Ended \<longrightarrow> GameOver g' \<and> Current g' = Current g) \<and>
           (oc = Continues \<longrightarrow> GameOver g' = GameOver g \<and>
              Current g' = (if Current g = cellR then cellY else cellR))"
    if ne: "row \<noteq> - 1"
  proof -
    from row(2) ne have e: "cellAt (Grid g) row c = Some cellEmpty" by simp
    from setCell_Some[OF e, of "Current g"] obtain grid1 where g1:
      "setCell (Grid g) row c (Current g) = Some grid1"
      "\<forall>r' c'. cellAt grid1 r' c' = (if r' = row \<and> c' = c then Some (Current g) else cellAt (Grid g) r' c')"
      by blast
    let ?g1 = "g\<lparr>Grid := grid1, Turns := Turns g + 1\<rparr>"
    have wf1: "wfGame ?g1" by (rule setCell_wf[OF assms g1(1)]) simp_all
    have c1: "cellAt (Grid ?g1) row c = Some (Current g)" using g1(2) by simp
    from checkResult_total[OF wf1 c1] obtain b g2 where cr:
      "checkResult ?g1 row c (Current g) = Some (b, g2)"
      by (metis (no_types, lifting) old.prod.exhaust)
    note f = checkResult_fields[OF cr]
    let ?oc = "if b then Ended else Continues"
    let ?g' = "if b then g2 else passTurn ?g1 (if Current g = cellR then cellY else cellR)"
    have h: "handleOnlineMove g c = Some (?oc, ?g')"
      using row(1) ne e g1(1) cr f
      by (cases b) (auto simp: handleOnlineMove_def passTurn_def Let_def)
    have grid: "Grid ?g' = grid1" using f by (cases b) (simp_all add: passTurn_def)
    have t: "Turns ?g' = Turns g + 1" using f by (cases b) (simp_all add: passTurn_def)
    have en: "?oc = Ended \<longrightarrow> GameOver ?g' \<and> Current ?g' = Current g"
      using f by (cases b) simp_all
    have co: "?oc = Continues \<longrightarrow> GameOver ?g' = GameOver g \<and>
              Current ?g' = (if Current g = cellR then cellY else cellR)"
      using f by (cases b) (simp_all add: passTurn_def)
    have nr: "?oc \<noteq> Refused" by simp
    have cells: "cellAt (Grid ?g') row c = Some (Current g)"
      "\<forall>r' c'. (r', c') \<noteq> (row, c) \<longrightarrow> cellAt (Grid ?g') r' c' = cellAt (Grid g) r' c'"
      using g1(2) grid by auto
    from h nr e cells t en co show ?thesis by blast
  qed
  from row(1) 1 2 show ?thesis by blast
qed

text \<open>
  Claim C5. Take a lobby with a well-formed game and a POST for it. The side of the
  request is Yellow when the form value is "Y" and Red otherwise. If that side is not
  the current player, or the game is over, or \<^verbatim>\<open>dropRow\<close> finds no landing cell in the
  column, the handler redirects to the waiting page and the server state, and with it
  the lobby's game, is what it was. In every other case the move is applied: the
  lobby's game is replaced by one in which the landing cell, empty before, holds the
  current player's piece, no other cell has changed and the turn counter is one higher;
  either that game is over, the current player is unchanged, the game is also stored
  under the fresh session identifier and the handler redirects to the result page, or
  it is not over, the turn has passed to the other player and the handler redirects to
  the waiting page.
\<close>

theorem handleOnlinePlay_spec:
  assumes "lobbies s code = Some lb" and "wfGame (Game lb)"
  shows "(Current (Game lb) \<noteq> (if side = ''Y'' then cellY else cellR) \<or> GameOver (Game lb) \<or>
          dropRow (Grid (Game lb)) c (GravityUp (Game lb)) = Some (- 1)
          \<longrightarrow> handleOnlinePlay s True code side c now sid = Some (RedirectWait, s)) \<and>
         (Current (Game lb) = (if side = ''Y'' then cellY else cellR) \<and> \<not> GameOver (Game lb) \<and>
          dropRow (Grid (Game lb)) c (GravityUp (Game lb)) \<noteq> Some (- 1)
          \<longrightarrow> (\<exists>resp g' row.
                 handleOnlinePlay s True code side c now sid =
                   Some (resp, s\<lparr>lobbies := (lobbies s)(code \<mapsto> lb\<lparr>Game := g', UpdatedAt := now\<rparr>),
                                 sessions := (if GameOver g' then (sessions s)(sid \<mapsto> g')
                                              else sessions s)\<rparr>) \<and>
                 dropRow (Grid (Game lb)) c (GravityUp (Game lb)) = Some row \<and>
                 cellAt (Grid (Game lb)) row c = Some cellEmpty \<and>
                 cellAt (Grid g') row c = Some (Current (Game lb)) \<and>
                 (\<forall>r' c'. (r', c') \<noteq> (row, c) \<longrightarrow>
                    cellAt (Grid g') r' c' = cellAt (Grid (Game lb)) r' c') \<and>
                 Turns g' = Turns (Game lb) + 1 \<and>
                 (if GameOver g' then resp = RedirectResult \<and> Current g' = Current (Game lb)
                  else resp = RedirectWait \<and>
                       Current g' = (if Current (Game lb) = cellR then cellY else cellR))))"
proof -
  let ?g = "Game lb"
  from handleOnlineMove_total[OF assms(2), of c] obtain row where row:
    "dropRow (Grid ?g) c (GravityUp ?g) = Some row"
    "row = - 1 \<longrightarrow> handleOnlineMove ?g c = Some (Refused, ?g)"
    "row \<noteq> - 1 \<longrightarrow>
        (\<exists>oc g'. handleOnlineMove ?g c = Some (oc, g') \<and> oc \<noteq> Refused \<and>
           cellAt (Grid ?g) row c = Some cellEmpty \<and>
           cellAt (Grid g') row c = Some (Current ?g) \<and>
           (\<forall>r' c'. (r', c') \<noteq> (row, c) \<longrightarrow> cellAt (Grid g') r' c' = cellAt (Grid ?g) r' c') \<and>
           Turns g' = Turns ?g + 1 \<and>
           (oc = Ended \<longrightarrow> GameOver g' \<and> Current g' = Current ?g) \<and>
           (oc = Continues \<longrightarrow> GameOver g' = GameOver ?g \<and>
              Current g' = (if Current ?g = cellR then cellY else cellR)))"
    by blast
  have rej: "Current ?g \<noteq> (if side = ''Y'' then cellY else cellR) \<or> GameOver ?g \<or>
          dropRow (Grid ?g) c (GravityUp ?g) = Some (- 1)
          \<longrightarrow> handleOnlinePlay s True code side c now sid = Some (RedirectWait, s)"
    using assms(1) row(1,2) by (auto simp: handleOnlinePlay_def Let_def)
  have acc: "\<exists>resp g' row.
                 handleOnlinePlay s True code side c now sid =
                   Some (resp, s\<lparr>lobbies := (lobbies s)(code \<mapsto> lb\<lparr>Game := g', UpdatedAt := now\<rparr>),
                                 sessions := (if GameOver g' then (sessions s)(sid \<mapsto> g')
                                              else sessions s)\<rparr>) \<and>
                 dropRow (Grid ?g) c (GravityUp ?g) = Some row \<and>
                 cellAt (Grid ?g) row c = Some cellEmpty \<and>
                 cellAt (Grid g') row c = Some (Current ?g) \<and>
                 (\<forall>r' c'. (r', c') \<noteq> (row, c) \<longrightarrow>
                    cellAt (Grid g') r' c' = cellAt (Grid ?g) r' c') \<and>
                 Turns g' = Turns ?g + 1 \<and>
                 (if GameOver g' then resp = RedirectResult \<and> Current g' = Current ?g
                  else resp = RedirectWait \<and>
                       Current g' = (if Current ?g = cellR then cellY else cellR))"
    if a: "Current ?g = (if side = ''Y'' then cellY else cellR)" "\<not> GameOver ?g"
      "dropRow (Grid ?g) c (GravityUp ?g) \<noteq> Some (- 1)"
  proof -
    from a(3) row(1) have "row \<noteq> - 1" by auto
    with row(3) obtain oc g' where m: "handleOnlineMove ?g c = Some (oc, g')" "oc \<noteq> Refused"
      "cellAt (Grid ?g) row c = Some cellEmpty"
      "cellAt (Grid g') row c = Some (Current ?g)"
      "\<forall>r' c'. (r', c') \<noteq> (row, c) \<longrightarrow> cellAt (Grid g') r' c' = cellAt (Grid ?g) r' c'"
      "Turns g' = Turns ?g + 1"
      "oc = Ended \<longrightarrow> GameOver g' \<and> Current g' = Current ?g"
      "oc = Continues \<longrightarrow> GameOver g' = GameOver ?g \<and>
              Current g' = (if Current ?g = cellR then cellY else cellR)"
      by blast
    let ?resp = "if oc = Ended then RedirectResult else RedirectWait"
    have h: "handleOnlinePlay s True code side c now sid =
        Some (?resp, s\<lparr>lobbies := (lobbies s)(code \<mapsto> lb\<lparr>Game := g', UpdatedAt := now\<rparr>),
                                 sessions := (if GameOver g' then (sessions s)(sid \<mapsto> g')
                                              else sessions s)\<rparr>)"
      using assms(1) a(1,2) m(1,2,7,8) by (cases oc) (simp_all add: handleOnlinePlay_def Let_def)
    have r: "if GameOver g' then ?resp = RedirectResult \<and> Current g' = Current ?g
                  else ?resp = RedirectWait \<and>
                       Current g' = (if Current ?g = cellR then cellY else cellR)"
      using m(2,7,8) a(2) by (cases oc) simp_all
    from h row(1) m(3,4,5,6) r show ?thesis by blast
  qed
  from rej acc show ?thesis by blast
qed

theorem handleOnlinePlay_spec_witness:
  "lobbies exampleServer ''ABCD'' = Some exampleLobby \<and> wfGame (Game exampleLobby) \<and>
   handleOnlinePlay exampleServer True ''ABCD'' ''Y'' 3 7 ''s1'' = Some (RedirectWait, exampleServer) \<and>
   handleOnlinePlay exampleServer True ''ABCD'' ''R'' 9 7 ''s1'' = Some (RedirectWait, exampleServer) \<and>
   (\<exists>resp g'. handleOnlinePlay exampleServer True ''ABCD'' ''R'' 3 7 ''s1'' =
        Some (resp, exampleServer\<lparr>lobbies := (lobbies exampleServer)(''ABCD'' \<mapsto>
                        exampleLobby\<lparr>Game := g', UpdatedAt := 7\<rparr>),
                      sessions := (if GameOver g' then (sessions exampleServer)(''s1'' \<mapsto> g')
                                   else sessions exampleServer)\<rparr>) \<and>
      cellAt (Grid g') 5 3 = Some cellR \<and> Turns g' = 1)"
proof -
  have l: "lobbies exampleServer ''ABCD'' = Some exampleLobby"
    by (simp add: exampleServer_def)
  have w: "wfGame (Game exampleLobby)"
    by (simp add: wfGame_def exampleLobby_def exampleGame_def rectangular_def eval_nat_numeral)
  have f: "Current (Game exampleLobby) = cellR" "\<not> GameOver (Game exampleLobby)"
    "Turns (Game exampleLobby) = 0" "cellR \<noteq> cellY"
    by (simp_all add: exampleLobby_def exampleGame_def cellR_def cellY_def)
  have d: "dropRow (Grid (Game exampleLobby)) 3 (GravityUp (Game exampleLobby)) = Some 5"
    "dropRow (Grid (Game exampleLobby)) 9 (GravityUp (Game exampleLobby)) = Some (- 1)"
    by code_simp+
  have p1: "Current (Game exampleLobby) \<noteq> (if ''Y'' = ''Y'' then cellY else cellR) \<or>
      GameOver (Game exampleLobby) \<or>
      dropRow (Grid (Game exampleLobby)) 3 (GravityUp (Game exampleLobby)) = Some (- 1)"
    using f by simp
  have p2: "Current (Game exampleLobby) \<noteq> (if ''R'' = ''Y'' then cellY else cellR) \<or>
      GameOver (Game exampleLobby) \<or>
      dropRow (Grid (Game exampleLobby)) 9 (GravityUp (Game exampleLobby)) = Some (- 1)"
    using d(2) by simp
  have p3: "Current (Game exampleLobby) = (if ''R'' = ''Y'' then cellY else cellR) \<and>
      \<not> GameOver (Game exampleLobby) \<and>
      dropRow (Grid (Game exampleLobby)) 3 (GravityUp (Game exampleLobby)) \<noteq> Some (- 1)"
    using f d(1) by simp
  note t = handleOnlinePlay_spec[OF l w]
  from t[of "''Y''" 3 7 "''s1''", THEN conjunct1, THEN mp, OF p1]
  have 1: "handleOnlinePlay exampleServer True ''ABCD'' ''Y'' 3 7 ''s1'' = Some (RedirectWait, exampleServer)" .
  from t[of "''R''" 9 7 "''s1''", THEN conjunct1, THEN mp, OF p2]
  have 2: "handleOnlinePlay exampleServer True ''ABCD'' ''R'' 9 7 ''s1'' = Some (RedirectWait, exampleServer)" .
  from t[of "''R''" 3 7 "''s1''", THEN conjunct2, THEN mp, OF p3]
  obtain resp g' row where x:
    "handleOnlinePlay exampleServer True ''ABCD'' ''R'' 3 7 ''s1'' =
        Some (resp, exampleServer\<lparr>lobbies := (lobbies exampleServer)(''ABCD'' \<mapsto>
                        exampleLobby\<lparr>Game := g', UpdatedAt := 7\<rparr>),
                      sessions := (if GameOver g' then (sessions exampleServer)(''s1'' \<mapsto> g')
                                   else sessions exampleServer)\<rparr>)"
    "dropRow (Grid (Game exampleLobby)) 3 (GravityUp (Game exampleLobby)) = Some row"
    "cellAt (Grid g') row 3 = Some (Current (Game exampleLobby))"
    "Turns g' = Turns (Game exampleLobby) + 1"
    by blast
  from x(2) d(1) have "row = 5" by simp
  with x(3,4) f have "cellAt (Grid g') 5 3 = Some cellR" "Turns g' = 1" by simp_all
  with x(1) have 3: "\<exists>resp g'. handleOnlinePlay exampleServer True ''ABCD'' ''R'' 3 7 ''s1'' =
        Some (resp, exampleServer\<lparr>lobbies := (lobbies exampleServer)(''ABCD'' \<mapsto>
                        exampleLobby\<lparr>Game := g', UpdatedAt := 7\<rparr>),
                      sessions := (if GameOver g' then (sessions exampleServer)(''s1'' \<mapsto> g')
                                   else sessions exampleServer)\<rparr>) \<and>
      cellAt (Grid g') 5 3 = Some cellR \<and> Turns g' = 1"
    by blast
  from l w 1 2 3 show ?thesis by blast
qed

section \<open>Properties: the computer's move\<close>

text \<open>
  What the inner loop of \<^verbatim>\<open>chooseAIMove\<close> computes, on every game: run on the board that
  already holds Yellow's trial piece, it returns true exactly when one of the columns
  it visits is an immediate win for Red on that board.
\<close>

lemma needBlockLoop_flag:
  "needBlockLoop g ccs = Some (b, g') \<Longrightarrow> b = (\<exists>cc \<in> set ccs. winsAt g cellR cc)"
proof (induction ccs arbitrary: g b g')
  case Nil
  then show ?case by simp
next
  case (Cons cc ccs)
  from Cons.prems obtain rr where rr: "dropRow (Grid g) cc (GravityUp g) = Some rr"
    by (auto split: option.splits)
  show ?case
  proof (cases "rr = - 1")
    case True
    with rr have w: "\<not> winsAt g cellR cc" by (simp add: winsAt_def)
    from Cons.prems rr True have "needBlockLoop g ccs = Some (b, g')" by simp
    from Cons.IH[OF this] w show ?thesis by simp
  next
    case False
    with Cons.prems rr obtain v where v: "cellAt (Grid g) rr cc = Some v"
      by (auto split: option.splits)
    show ?thesis
    proof (cases "v = cellEmpty")
      case ne: False
      with rr v have w: "\<not> winsAt g cellR cc" by (simp add: winsAt_def)
      from Cons.prems rr False v ne have "needBlockLoop g ccs = Some (b, g')" by simp
      from Cons.IH[OF this] w show ?thesis by simp
    next
      case True
      with Cons.prems rr False v obtain g1 line g2 where
        s: "setCell (Grid g) rr cc cellR = Some g1" "winningLine g1 rr cc cellR = Some line"
          "setCell g1 rr cc cellEmpty = Some g2"
        by (auto split: option.splits)
      from setCell_restore[OF v s(1)] s(3) True have "g2 = Grid g" by simp
      then have same: "g\<lparr>Grid := g2\<rparr> = g" by simp
      from rr False v True s have w: "winsAt g cellR cc = (length line \<ge> 4)"
        by (simp add: winsAt_def)
      show ?thesis
      proof (cases "length line \<ge> 4")
        case long: True
        with Cons.prems rr False v True s have "b" by simp
        with w long show ?thesis by simp
      next
        case short: False
        with Cons.prems rr False v True s same have "needBlockLoop g ccs = Some (b, g')" by simp
        from Cons.IH[OF this] w short show ?thesis by simp
      qed
    qed
  qed
qed

text \<open>
  The example game against the computer, handler call by handler call: each call places
  the player's piece and the computer's answer.
\<close>

lemma exampleAI2_play: "handlePlay exampleAI True (Some 0) = Some (RedirectGame, exampleAI2)"
  by code_simp

lemma exampleAI4_play: "handlePlay exampleAI2 True (Some 0) = Some (RedirectGame, exampleAI4)"
  by code_simp

lemma exampleAI6_play: "handlePlay exampleAI4 True (Some 6) = Some (RedirectGame, exampleAI6)"
  by code_simp

lemma exampleAI8_play: "handlePlay exampleAI6 True (Some 6) = Some (RedirectGame, exampleAI8)"
  by code_simp

lemma exampleAI10_play: "handlePlay exampleAI8 True (Some 6) = Some (RedirectGame, exampleAI10)"
  by code_simp

lemma exampleAI10_run: "playAll exampleAI [0, 0, 6, 6, 6] = Some exampleAI10"
  by (simp add: exampleAI2_play exampleAI4_play exampleAI6_play exampleAI8_play exampleAI10_play)

lemma exampleAI11_move: "handlePlayMove exampleAI10 0 = Some (Continues, exampleAI11)"
  by code_simp

lemma exampleAI11_choice: "chooseAIMove exampleAI11 = Some (2, exampleAI11)"
  by code_simp

lemma exampleAI12_answer: "handlePlayAI exampleAI11 = Some (Continues, exampleAI12)"
  unfolding handlePlayAI_def exampleAI11_choice by code_simp

lemma exampleAI12_play: "handlePlay exampleAI10 True (Some 0) = Some (RedirectGame, exampleAI12)"
proof -
  have a: "\<not> GameOver exampleAI10" "Cols exampleAI10 = 7"
    by (simp_all add: exampleAI10_def exampleGame_def)
  have b: "Mode exampleAI11 = ''ai''" "Current exampleAI11 = cellY" "\<not> GameOver exampleAI11"
    by (simp_all add: exampleAI11_def exampleGame_def)
  show ?thesis
    by (simp add: handlePlay_def a b exampleAI11_move exampleAI12_answer)
qed

lemma exampleAI13_play: "handlePlay exampleAI12 True (Some 0) = Some (RedirectResult, exampleAI13)"
  by code_simp

lemma exampleAI11_wins:
  "immediateWins exampleAI11 cellY = []" "immediateWins exampleAI11 cellR = [0]"
  by code_simp+

lemma exampleTry0_trial:
  "dropRow (Grid exampleAI11) 0 (GravityUp exampleAI11) = Some 2"
  "setCell (Grid exampleAI11) 2 0 cellY = Some (Grid exampleTry0)"
  "immediateWins exampleTry0 cellR = []"
  "needBlockLoop exampleTry0 [0..Cols exampleTry0 - 1] = Some (False, exampleTry0)"
  by code_simp+

lemma exampleTry2_trial:
  "dropRow (Grid exampleAI11) 2 (GravityUp exampleAI11) = Some 5"
  "setCell (Grid exampleAI11) 5 2 cellY = Some (Grid exampleTry2)"
  "immediateWins exampleTry2 cellR = [0]"
  "needBlockLoop exampleTry2 [0..Cols exampleTry2 - 1] = Some (True, exampleTry2)"
  by code_simp+

text \<open>
  Claim C1. The game \<open>exampleAI11\<close> is reached from a new game by the handler (the
  player's columns 0, 0, 6, 6, 6, 0) and the computer is to move. Yellow has no winning
  column; Red has one, column 0. With Yellow's trial piece in column 0 Red has no
  winning column left, yet the loop that sets \<^verbatim>\<open>needBlock\<close> returns false, so this
  candidate gets no bonus; with the trial piece in column 2 Red still wins in column 0,
  and the loop returns true, so this candidate gets the bonus: the flag is set when the
  threat remains, not when it is removed. \<^verbatim>\<open>chooseAIMove\<close> returns column 2, the
  handler plays it, and Red's next piece in column 0 wins the game.
\<close>

theorem chooseAIMove_leaves_threat:
  "newGame 6 7 3 0 exampleRnd = Some exampleGame \<and> exampleAI = exampleGame\<lparr>Mode := ''ai''\<rparr> \<and>
   playAll exampleAI [0, 0, 6, 6, 6] = Some exampleAI10 \<and>
   handlePlayMove exampleAI10 0 = Some (Continues, exampleAI11) \<and>
   immediateWins exampleAI11 cellY = [] \<and> immediateWins exampleAI11 cellR = [0] \<and>
   dropRow (Grid exampleAI11) 0 (GravityUp exampleAI11) = Some 2 \<and>
   setCell (Grid exampleAI11) 2 0 cellY = Some (Grid exampleTry0) \<and>
   immediateWins exampleTry0 cellR = [] \<and>
   needBlockLoop exampleTry0 [0..Cols exampleTry0 - 1] = Some (False, exampleTry0) \<and>
   dropRow (Grid exampleAI11) 2 (GravityUp exampleAI11) = Some 5 \<and>
   setCell (Grid exampleAI11) 5 2 cellY = Some (Grid exampleTry2) \<and>
   immediateWins exampleTry2 cellR = [0] \<and>
   needBlockLoop exampleTry2 [0..Cols exampleTry2 - 1] = Some (True, exampleTry2) \<and>
   chooseAIMove exampleAI11 = Some (2, exampleAI11) \<and>
   handlePlay exampleAI10 True (Some 0) = Some (RedirectGame, exampleAI12) \<and>
   handlePlay exampleAI12 True (Some 0) = Some (RedirectResult, exampleAI13) \<and>
   GameOver exampleAI13 \<and> ScoresR exampleAI13 = ScoresR exampleAI12 + 1"
proof -
  have s: "exampleAI = exampleGame\<lparr>Mode := ''ai''\<rparr>" by (simp add: exampleAI_def)
  have e: "GameOver exampleAI13" "ScoresR exampleAI13 = ScoresR exampleAI12 + 1"
    by (simp_all add: exampleAI13_def exampleAI12_def exampleGame_def)
  from exampleGame_new s exampleAI10_run exampleAI11_move exampleAI11_wins exampleTry0_trial
    exampleTry2_trial exampleAI11_choice exampleAI12_play exampleAI13_play e
  show ?thesis by (intro conjI)
qed

end
